theory Spec2Isabelle
  imports Complex_Main
begin

section \<open>Conventions of the embedding\<close>

text \<open>
  The notebooks compute with NumPy \<open>float64\<close> and \<open>complex128\<close> values. The embedding
  uses the exact fields \<open>real\<close> and \<open>complex\<close> in their place, so the statements below
  are about the mathematical function the notebook code denotes, not about rounding.
  The one function whose result depends on the range of \<open>float64\<close>, \<^verbatim>\<open>normalize_state\<close>,
  is modelled with overflow and underflow.

  Where the Python raises, or where NumPy produces no number (a \<open>nan\<close> entry together
  with a \<open>RuntimeWarning\<close>), the model returns \<open>Inl\<close> of an error value.
\<close>

datatype py_error =
    ValueError          \<comment> \<open>raised by NumPy and PennyLane on ill-shaped arguments\<close>
  | IndexError          \<comment> \<open>indexing past the end of a sequence\<close>
  | ZeroDivisionError   \<comment> \<open>Python \<open>/\<close> with a zero divisor\<close>
  | InvalidValue        \<comment> \<open>NumPy's invalid-value path: the result holds \<open>nan\<close>\<close>
  | WireError           \<comment> \<open>an operation on a wire the device does not have\<close>

section \<open>Task 2: classical post-processing of the parity classifier\<close>

text \<open>
  \<^verbatim>\<open>labels - qml.math.stack(predictions)\<close>: the stacked predictions form a
  one-dimensional array; stacking an empty sequence is rejected. The subtraction
  follows NumPy broadcasting of one-dimensional arrays: equal lengths, or one side of
  length one.
\<close>

definition stack :: "real list \<Rightarrow> py_error + real list" where
  "stack values = (if values = [] then Inl ValueError else Inr values)"

definition broadcast_sub :: "real list \<Rightarrow> real list \<Rightarrow> py_error + real list" where
  "broadcast_sub a b =
     (if length a = length b then Inr (map (\<lambda>(x, y). x - y) (zip a b))
      else if length b = 1 then Inr (map (\<lambda>x. x - hd b) a)
      else if length a = 1 then Inr (map (\<lambda>y. hd a - y) b)
      else Inl ValueError)"

text \<open>\<^verbatim>\<open>np.mean\<close>: the mean of an empty array is \<open>nan\<close>.\<close>

definition mean :: "real list \<Rightarrow> py_error + real" where
  "mean xs = (if xs = [] then Inl InvalidValue else Inr (sum_list xs / real (length xs)))"

definition square_loss :: "real list \<Rightarrow> real list \<Rightarrow> py_error + real" where
  "square_loss labels predictions =
     (case stack predictions of
        Inl e \<Rightarrow> Inl e
      | Inr ps \<Rightarrow>
          (case broadcast_sub labels ps of
             Inl e \<Rightarrow> Inl e
           | Inr d \<Rightarrow> mean (map (\<lambda>x. x ^ 2) d)))"

text \<open>
  \<^verbatim>\<open>acc = sum(abs(l - p) < 1e-5 for l, p in zip(labels, predictions))\<close>, then
  \<^verbatim>\<open>acc / len(labels)\<close>.
\<close>

definition close_pairs :: "real list \<Rightarrow> real list \<Rightarrow> nat" where
  "close_pairs labels predictions =
     length (filter (\<lambda>(l, p). \<bar>l - p\<bar> < 1 / 100000) (zip labels predictions))"

definition accuracy :: "real list \<Rightarrow> real list \<Rightarrow> py_error + real" where
  "accuracy labels predictions =
     (let acc = close_pairs labels predictions
      in if length labels = 0 then Inl ZeroDivisionError
         else Inr (real acc / real (length labels)))"

section \<open>Task 1: All About Qubits\<close>

subsection \<open>Codercise I.1.1: \<^verbatim>\<open>normalize_state\<close>\<close>

text \<open>
  \<^verbatim>\<open>
    psi = np.array([alpha, beta])
    norm = np.linalg.norm(psi)
    psi = psi / norm
    return psi
  \<close>
  \<^verbatim>\<open>np.linalg.norm\<close> squares the entries in \<open>float64\<close> without scaling, so the squares of
  very small or very large amplitudes leave the range of the type. A \<open>float64\<close> value
  is a real number, an infinity or \<open>nan\<close>. The result of an operation is the exact
  result rounded: to an infinity from \<open>2^1024 - 2^970\<close> on (half a unit in the last
  place above the largest finite value), to zero up to \<open>2^-1075\<close> (half the smallest
  subnormal), and, the rounding error inside the range not being modelled, to itself
  in between. Signed zeros are not distinguished.
\<close>

datatype f64 = Fin real | PInf | NInf | NaN

definition overflow_threshold :: real where
  "overflow_threshold = 2 ^ 1024 - 2 ^ 970"

definition underflow_threshold :: real where
  "underflow_threshold = 1 / 2 ^ 1075"

definition round64 :: "real \<Rightarrow> f64" where
  "round64 x =
     (if overflow_threshold \<le> x then PInf
      else if x \<le> - overflow_threshold then NInf
      else if \<bar>x\<bar> \<le> underflow_threshold then Fin 0
      else Fin x)"

text \<open>The arithmetic of IEEE 754 on these values; no operation raises.\<close>

fun f_mul :: "f64 \<Rightarrow> f64 \<Rightarrow> f64" where
  "f_mul (Fin x) (Fin y) = round64 (x * y)"
| "f_mul NaN _ = NaN"
| "f_mul _ NaN = NaN"
| "f_mul (Fin x) PInf = (if x = 0 then NaN else if 0 < x then PInf else NInf)"
| "f_mul (Fin x) NInf = (if x = 0 then NaN else if 0 < x then NInf else PInf)"
| "f_mul PInf (Fin y) = (if y = 0 then NaN else if 0 < y then PInf else NInf)"
| "f_mul NInf (Fin y) = (if y = 0 then NaN else if 0 < y then NInf else PInf)"
| "f_mul PInf PInf = PInf"
| "f_mul NInf NInf = PInf"
| "f_mul PInf NInf = NInf"
| "f_mul NInf PInf = NInf"

fun f_add :: "f64 \<Rightarrow> f64 \<Rightarrow> f64" where
  "f_add (Fin x) (Fin y) = round64 (x + y)"
| "f_add NaN _ = NaN"
| "f_add _ NaN = NaN"
| "f_add PInf NInf = NaN"
| "f_add NInf PInf = NaN"
| "f_add PInf _ = PInf"
| "f_add _ PInf = PInf"
| "f_add NInf _ = NInf"
| "f_add _ NInf = NInf"

fun f_sqrt :: "f64 \<Rightarrow> f64" where
  "f_sqrt (Fin x) = (if x < 0 then NaN else round64 (sqrt x))"
| "f_sqrt PInf = PInf"
| "f_sqrt NInf = NaN"
| "f_sqrt NaN = NaN"

fun f_div :: "f64 \<Rightarrow> f64 \<Rightarrow> f64" where
  "f_div (Fin x) (Fin y) =
     (if y = 0 then (if x = 0 then NaN else if 0 < x then PInf else NInf)
      else round64 (x / y))"
| "f_div NaN _ = NaN"
| "f_div _ NaN = NaN"
| "f_div (Fin x) PInf = Fin 0"
| "f_div (Fin x) NInf = Fin 0"
| "f_div PInf (Fin y) = (if 0 \<le> y then PInf else NInf)"
| "f_div NInf (Fin y) = (if 0 \<le> y then NInf else PInf)"
| "f_div PInf PInf = NaN"
| "f_div PInf NInf = NaN"
| "f_div NInf PInf = NaN"
| "f_div NInf NInf = NaN"

text \<open>
  The arguments are Python numbers (an \<open>int\<close> is converted like a \<open>float\<close>), taken to be
  representable. \<^verbatim>\<open>np.array\<close> of floats is a \<open>float64\<close> array; one complex entry
  makes it a \<open>complex128\<close> array, an entry being a pair of real and imaginary part.
\<close>

datatype py_number = PyFloat real | PyComplex real real

datatype ndarray = FloatArray "f64 list" | ComplexArray "(f64 \<times> f64) list"

fun np_array :: "py_number list \<Rightarrow> ndarray" where
  "np_array [] = FloatArray []"
| "np_array (PyFloat x # rest) =
     (case np_array rest of
        FloatArray xs \<Rightarrow> FloatArray (Fin x # xs)
      | ComplexArray zs \<Rightarrow> ComplexArray ((Fin x, Fin 0) # zs))"
| "np_array (PyComplex x y # rest) =
     (case np_array rest of
        FloatArray xs \<Rightarrow> ComplexArray ((Fin x, Fin y) # map (\<lambda>r. (r, Fin 0)) xs)
      | ComplexArray zs \<Rightarrow> ComplexArray ((Fin x, Fin y) # zs))"

text \<open>
  \<^verbatim>\<open>np.linalg.norm\<close> of a vector: \<^verbatim>\<open>sqrt(x.dot(x))\<close> for a real array and
  \<^verbatim>\<open>sqrt(x.real.dot(x.real) + x.imag.dot(x.imag))\<close> for a complex one.
\<close>

definition dot :: "f64 list \<Rightarrow> f64 list \<Rightarrow> f64" where
  "dot xs ys = foldl f_add (Fin 0) (map (\<lambda>(x, y). f_mul x y) (zip xs ys))"

fun linalg_norm :: "ndarray \<Rightarrow> f64" where
  "linalg_norm (FloatArray xs) = f_sqrt (dot xs xs)"
| "linalg_norm (ComplexArray zs) =
     (let x_real = map fst zs; x_imag = map snd zs
      in f_sqrt (f_add (dot x_real x_real) (dot x_imag x_imag)))"

text \<open>
  The unguarded division of the array by the norm. A float entry is divided by the
  norm. A complex entry is divided by the norm as a complex number with imaginary part
  zero: by a zero norm both parts are divided by it, and otherwise both are multiplied
  by the reciprocal of the norm.
\<close>

definition complex_div_real :: "f64 \<times> f64 \<Rightarrow> f64 \<Rightarrow> f64 \<times> f64" where
  "complex_div_real z d =
     (if d = Fin 0 then (f_div (fst z) d, f_div (snd z) d)
      else let scl = f_div (Fin 1) d in (f_mul (fst z) scl, f_mul (snd z) scl))"

fun array_div :: "ndarray \<Rightarrow> f64 \<Rightarrow> ndarray" where
  "array_div (FloatArray xs) d = FloatArray (map (\<lambda>x. f_div x d) xs)"
| "array_div (ComplexArray zs) d = ComplexArray (map (\<lambda>z. complex_div_real z d) zs)"

definition normalize_state :: "py_number \<Rightarrow> py_number \<Rightarrow> ndarray" where
  "normalize_state alpha beta =
     (let psi = np_array [alpha, beta];
          norm = linalg_norm psi
      in array_div psi norm)"

text \<open>
  \<^verbatim>\<open>measure_state\<close> of Codercise I.1.3 draws from NumPy's global random generator.
  The generator is a state machine outside the repository: its state type \<open>'g\<close> and its
  step \<open>random\<close> (one call of \<^verbatim>\<open>np.random.random()\<close>: a draw and the next state) are
  parameters, and the generator state is passed through the function.
\<close>

text \<open>
  \<^verbatim>\<open>
    prob_0 = np.linalg.norm(state[0])**2
    outcomes = np.array([0 for i in range(num_meas)])
    for i in range(len(outcomes)):
        x = np.random.random()
        if x < prob_0:
            outcomes[i] = 0
        else:
            outcomes[i] = 1
    return outcomes
  \<close>
\<close>

fun measure_loop ::
  "('g \<Rightarrow> real \<times> 'g) \<Rightarrow> real \<Rightarrow> nat list \<Rightarrow> int list \<Rightarrow> 'g \<Rightarrow> int list \<times> 'g" where
  "measure_loop random prob_0 [] outcomes g = (outcomes, g)"
| "measure_loop random prob_0 (i # rest) outcomes g =
     (case random g of
        (x, g') \<Rightarrow>
          measure_loop random prob_0 rest
            (if x < prob_0 then outcomes[i := 0] else outcomes[i := 1]) g')"

definition measure_state ::
  "('g \<Rightarrow> real \<times> 'g) \<Rightarrow> complex list \<Rightarrow> int \<Rightarrow> 'g \<Rightarrow> py_error + (int list \<times> 'g)" where
  "measure_state random state num_meas g =
     (if state = [] then Inl IndexError
      else
        let prob_0 = (cmod (state ! 0)) ^ 2;
            outcomes = replicate (nat num_meas) 0
        in Inr (measure_loop random prob_0 [0..<length outcomes] outcomes g))"

text \<open>The draws a generator produces from a state, and the state it is left in.\<close>

fun draws :: "('g \<Rightarrow> real \<times> 'g) \<Rightarrow> nat \<Rightarrow> 'g \<Rightarrow> real list" where
  "draws random 0 g = []"
| "draws random (Suc n) g = fst (random g) # draws random n (snd (random g))"

fun advance :: "('g \<Rightarrow> real \<times> 'g) \<Rightarrow> nat \<Rightarrow> 'g \<Rightarrow> 'g" where
  "advance random 0 g = g"
| "advance random (Suc n) g = advance random n (snd (random g))"

text \<open>A concrete generator for evaluation: its draws alternate between 0.3 and 0.7.\<close>

definition alternating_random :: "nat \<Rightarrow> real \<times> nat" where
  "alternating_random g = (if even g then 3 / 10 else 7 / 10, Suc g)"

text \<open>
  Codercise I.1.5: \<^verbatim>\<open>initialize_state\<close>, \<^verbatim>\<open>apply_u\<close> with the Hadamard matrix \<open>U\<close>, and
  a second \<^verbatim>\<open>measure_state\<close> that samples through \<^verbatim>\<open>np.random.choice\<close>. NumPy's
  \<open>choice\<close> rejects negative probabilities and a probability vector whose sum differs
  from one by more than \<open>sqrt(eps) = 2^-26\<close>. Otherwise it divides the cumulative sums
  by their total and inverts the resulting distribution on uniform draws of the same
  generator: for the two outcomes 0 and 1, a draw below \<open>p_alpha / (p_alpha + p_beta)\<close>
  gives 0 and any other draw gives 1.
\<close>

definition initialize_state :: "complex list" where
  "initialize_state = [1, 0]"

definition matvec2 :: "complex \<times> complex \<times> complex \<times> complex \<Rightarrow> complex list \<Rightarrow> py_error + complex list" where
  "matvec2 m v =
     (case m of (m00, m01, m10, m11) \<Rightarrow>
        (case v of
           [a, b] \<Rightarrow> Inr [m00 * a + m01 * b, m10 * a + m11 * b]
         | _ \<Rightarrow> Inl ValueError))"

definition U :: "complex \<times> complex \<times> complex \<times> complex" where
  "U = (1 / complex_of_real (sqrt 2), 1 / complex_of_real (sqrt 2),
        1 / complex_of_real (sqrt 2), - 1 / complex_of_real (sqrt 2))"

definition apply_u :: "complex list \<Rightarrow> py_error + complex list" where
  "apply_u state = matvec2 U state"

definition random_choice ::
  "('g \<Rightarrow> real \<times> 'g) \<Rightarrow> real \<Rightarrow> real \<Rightarrow> nat \<Rightarrow> 'g \<Rightarrow> py_error + (int list \<times> 'g)" where
  "random_choice random p_alpha p_beta count g =
     (if p_alpha < 0 \<or> p_beta < 0 then Inl ValueError
      else if 1 / 2 ^ 26 < \<bar>p_alpha + p_beta - 1\<bar> then Inl ValueError
      else
        let cdf_0 = p_alpha / (p_alpha + p_beta)
        in Inr (map (\<lambda>x. if x < cdf_0 then 0 else 1) (draws random count g),
                advance random count g))"

definition measure_state_choice ::
  "('g \<Rightarrow> real \<times> 'g) \<Rightarrow> complex list \<Rightarrow> int \<Rightarrow> 'g \<Rightarrow> py_error + (int list \<times> 'g)" where
  "measure_state_choice random state num_meas g =
     (if length state < 2 then Inl IndexError
      else if num_meas < 0 then Inl ValueError
      else
        let p_alpha = (cmod (state ! 0)) ^ 2;
            p_beta = (cmod (state ! 1)) ^ 2
        in random_choice random p_alpha p_beta (nat num_meas) g)"

definition quantum_algorithm :: "('g \<Rightarrow> real \<times> 'g) \<Rightarrow> 'g \<Rightarrow> py_error + (int list \<times> 'g)" where
  "quantum_algorithm random g =
     (let psi = initialize_state
      in case apply_u psi of
           Inl e \<Rightarrow> Inl e
         | Inr psi' \<Rightarrow> measure_state_choice random psi' 100 g)"

section \<open>The simulator device\<close>

text \<open>
  Every quantum function of the notebooks queues PennyLane operations, and the QNode
  runs the queue on the \<^verbatim>\<open>default.qubit\<close> state-vector simulator. The simulator is not
  part of the repository; the embedding gives the operations their documented
  matrices. A register of \<open>n\<close> wires is a full binary tree of depth \<open>n\<close>: \<open>Q a b\<close> splits
  on the first wire, \<open>a\<close> holding the amplitudes where that wire reads 0 and \<open>b\<close> those
  where it reads 1, so that the leaves from left to right are the amplitudes in
  PennyLane's order (wire 0 is the most significant bit of the index).
\<close>

datatype qstate = Amp complex | Q qstate qstate

fun amplitudes :: "qstate \<Rightarrow> complex list" where
  "amplitudes (Amp c) = [c]"
| "amplitudes (Q a b) = amplitudes a @ amplitudes b"

fun register :: "nat \<Rightarrow> qstate \<Rightarrow> bool" where
  "register 0 (Amp c) = True"
| "register (Suc n) (Q a b) = (register n a \<and> register n b)"
| "register _ _ = False"

fun null_state :: "nat \<Rightarrow> qstate" where
  "null_state 0 = Amp 0"
| "null_state (Suc n) = Q (null_state n) (null_state n)"

fun zero_state :: "nat \<Rightarrow> qstate" where
  "zero_state 0 = Amp 1"
| "zero_state (Suc n) = Q (zero_state n) (null_state n)"

fun scale :: "complex \<Rightarrow> qstate \<Rightarrow> qstate" where
  "scale k (Amp c) = Amp (k * c)"
| "scale k (Q a b) = Q (scale k a) (scale k b)"

fun add :: "qstate \<Rightarrow> qstate \<Rightarrow> qstate" where
  "add (Amp c) (Amp d) = Amp (c + d)"
| "add (Q a b) (Q c d) = Q (add a c) (add b d)"
| "add s _ = s"

type_synonym matrix2 = "complex \<times> complex \<times> complex \<times> complex"

text \<open>A 2x2 matrix (rows first) applied to the pair of halves a wire splits a state into.\<close>

fun on_pair :: "matrix2 \<Rightarrow> qstate \<Rightarrow> qstate \<Rightarrow> qstate \<times> qstate" where
  "on_pair (m00, m01, m10, m11) a b =
     (add (scale m00 a) (scale m01 b), add (scale m10 a) (scale m11 b))"

fun apply_single :: "matrix2 \<Rightarrow> nat \<Rightarrow> qstate \<Rightarrow> qstate" where
  "apply_single m w (Amp c) = Amp c"
| "apply_single m 0 (Q a b) = (case on_pair m a b of (a', b') \<Rightarrow> Q a' b')"
| "apply_single m (Suc w) (Q a b) = Q (apply_single m w a) (apply_single m w b)"

text \<open>
  A controlled gate acts on the target where the control reads 1. With the control
  above the target in the tree (\<open>control < target\<close>) it is the gate on the 1-branch of
  the control; \<open>k\<close> is the distance from the control down to the target.
\<close>

fun ctrl_above :: "matrix2 \<Rightarrow> nat \<Rightarrow> nat \<Rightarrow> qstate \<Rightarrow> qstate" where
  "ctrl_above m c k (Amp z) = Amp z"
| "ctrl_above m 0 k (Q a b) = Q a (apply_single m k b)"
| "ctrl_above m (Suc c) k (Q a b) = Q (ctrl_above m c k a) (ctrl_above m c k b)"

text \<open>
  With the control below the target, the two halves of the target are walked together
  down to the control, and the matrix is applied to the pair of their 1-branches.
\<close>

fun pair_ctrl :: "matrix2 \<Rightarrow> nat \<Rightarrow> qstate \<Rightarrow> qstate \<Rightarrow> qstate \<times> qstate" where
  "pair_ctrl m 0 (Q a0 a1) (Q b0 b1) =
     (case on_pair m a1 b1 of (x, y) \<Rightarrow> (Q a0 x, Q b0 y))"
| "pair_ctrl m (Suc k) (Q a0 a1) (Q b0 b1) =
     (case pair_ctrl m k a0 b0 of
        (x0, y0) \<Rightarrow> (case pair_ctrl m k a1 b1 of (x1, y1) \<Rightarrow> (Q x0 x1, Q y0 y1)))"
| "pair_ctrl m k a b = (a, b)"

fun ctrl_below :: "matrix2 \<Rightarrow> nat \<Rightarrow> nat \<Rightarrow> qstate \<Rightarrow> qstate" where
  "ctrl_below m t k (Amp z) = Amp z"
| "ctrl_below m 0 k (Q a b) = (case pair_ctrl m k a b of (a', b') \<Rightarrow> Q a' b')"
| "ctrl_below m (Suc t) k (Q a b) = Q (ctrl_below m t k a) (ctrl_below m t k b)"

definition apply_controlled :: "matrix2 \<Rightarrow> nat \<Rightarrow> nat \<Rightarrow> qstate \<Rightarrow> qstate" where
  "apply_controlled m control target s =
     (if control < target then ctrl_above m control (target - control - 1) s
      else ctrl_below m target (control - target - 1) s)"

subsection \<open>Gate matrices\<close>

definition inv_sqrt2 :: complex where
  "inv_sqrt2 = 1 / complex_of_real (sqrt 2)"

definition hadamard_matrix :: matrix2 where
  "hadamard_matrix = (inv_sqrt2, inv_sqrt2, inv_sqrt2, - inv_sqrt2)"

definition paulix_matrix :: matrix2 where
  "paulix_matrix = (0, 1, 1, 0)"

definition rx_matrix :: "real \<Rightarrow> matrix2" where
  "rx_matrix theta =
     (complex_of_real (cos (theta / 2)), - \<i> * complex_of_real (sin (theta / 2)),
      - \<i> * complex_of_real (sin (theta / 2)), complex_of_real (cos (theta / 2)))"

definition ry_matrix :: "real \<Rightarrow> matrix2" where
  "ry_matrix theta =
     (complex_of_real (cos (theta / 2)), - complex_of_real (sin (theta / 2)),
      complex_of_real (sin (theta / 2)), complex_of_real (cos (theta / 2)))"

definition rz_matrix :: "real \<Rightarrow> matrix2" where
  "rz_matrix theta = (cis (- theta / 2), 0, 0, cis (theta / 2))"

subsection \<open>Operations and their execution\<close>

datatype operation =
    BasisState "int list" "nat list"
  | Hadamard nat
  | PauliX nat
  | RX real nat
  | RY real nat
  | RZ real nat
  | Rot real real real nat
  | CNOT nat nat
  | CRX real nat nat
  | CRY real nat nat
  | CRZ real nat nat

text \<open>
  A basis state is prepared by flipping the wires whose bit is 1; the bits must be 0
  or 1, one for each of the distinct wires named.
\<close>

definition basis_flips :: "int list \<Rightarrow> nat list \<Rightarrow> qstate \<Rightarrow> qstate" where
  "basis_flips bits wires s =
     fold (\<lambda>(b, w) s'. if b = 1 then apply_single paulix_matrix w s' else s') (zip bits wires) s"

definition single_wire :: "nat \<Rightarrow> nat \<Rightarrow> matrix2 \<Rightarrow> qstate \<Rightarrow> py_error + qstate" where
  "single_wire n w m s = (if w < n then Inr (apply_single m w s) else Inl WireError)"

definition two_wires :: "nat \<Rightarrow> nat \<Rightarrow> nat \<Rightarrow> matrix2 \<Rightarrow> qstate \<Rightarrow> py_error + qstate" where
  "two_wires n c t m s =
     (if c < n \<and> t < n \<and> c \<noteq> t then Inr (apply_controlled m c t s) else Inl WireError)"

text \<open>\<open>Rot(phi, theta, omega)\<close> is \<open>RZ(omega) RY(theta) RZ(phi)\<close>: \<open>RZ(phi)\<close> acts first.\<close>

fun apply_operation :: "nat \<Rightarrow> operation \<Rightarrow> qstate \<Rightarrow> py_error + qstate" where
  "apply_operation n (BasisState bits wires) s =
     (if length bits \<noteq> length wires \<or> (\<exists>b \<in> set bits. b \<noteq> 0 \<and> b \<noteq> 1) then Inl ValueError
      else if (\<exists>w \<in> set wires. \<not> w < n) \<or> \<not> distinct wires then Inl WireError
      else Inr (basis_flips bits wires s))"
| "apply_operation n (Hadamard w) s = single_wire n w hadamard_matrix s"
| "apply_operation n (PauliX w) s = single_wire n w paulix_matrix s"
| "apply_operation n (RX theta w) s = single_wire n w (rx_matrix theta) s"
| "apply_operation n (RY theta w) s = single_wire n w (ry_matrix theta) s"
| "apply_operation n (RZ theta w) s = single_wire n w (rz_matrix theta) s"
| "apply_operation n (Rot phi theta omega w) s =
     (if w < n
      then Inr (apply_single (rz_matrix omega) w
                 (apply_single (ry_matrix theta) w (apply_single (rz_matrix phi) w s)))
      else Inl WireError)"
| "apply_operation n (CNOT c t) s = two_wires n c t paulix_matrix s"
| "apply_operation n (CRX theta c t) s = two_wires n c t (rx_matrix theta) s"
| "apply_operation n (CRY theta c t) s = two_wires n c t (ry_matrix theta) s"
| "apply_operation n (CRZ theta c t) s = two_wires n c t (rz_matrix theta) s"

fun execute :: "nat \<Rightarrow> operation list \<Rightarrow> qstate \<Rightarrow> py_error + qstate" where
  "execute n [] s = Inr s"
| "execute n (g # gs) s =
     (case apply_operation n g s of Inl e \<Rightarrow> Inl e | Inr s' \<Rightarrow> execute n gs s')"

text \<open>The three measurements the notebooks return, each over all wires of the device.\<close>

definition qml_state :: "nat \<Rightarrow> operation list \<Rightarrow> py_error + complex list" where
  "qml_state n tape =
     (case execute n tape (zero_state n) of Inl e \<Rightarrow> Inl e | Inr s \<Rightarrow> Inr (amplitudes s))"

definition qml_probs :: "nat \<Rightarrow> operation list \<Rightarrow> py_error + real list" where
  "qml_probs n tape =
     (case execute n tape (zero_state n) of
        Inl e \<Rightarrow> Inl e
      | Inr s \<Rightarrow> Inr (map (\<lambda>z. (cmod z) ^ 2) (amplitudes s)))"

fun norm2 :: "qstate \<Rightarrow> real" where
  "norm2 (Amp c) = (cmod c) ^ 2"
| "norm2 (Q a b) = norm2 a + norm2 b"

fun pauliz_value :: "nat \<Rightarrow> qstate \<Rightarrow> real" where
  "pauliz_value w (Amp c) = (cmod c) ^ 2"
| "pauliz_value 0 (Q a b) = norm2 a - norm2 b"
| "pauliz_value (Suc w) (Q a b) = pauliz_value w a + pauliz_value w b"

definition qml_expval_PauliZ :: "nat \<Rightarrow> operation list \<Rightarrow> nat \<Rightarrow> py_error + real" where
  "qml_expval_PauliZ n tape w =
     (case execute n tape (zero_state n) of
        Inl e \<Rightarrow> Inl e
      | Inr s \<Rightarrow> if w < n then Inr (pauliz_value w s) else Inl WireError)"

text \<open>The computational basis vector of a bit string, as an array of amplitudes.\<close>

definition bits_index :: "int list \<Rightarrow> nat" where
  "bits_index bits = foldl (\<lambda>a b. 2 * a + nat b) 0 bits"

definition basis_vector :: "int list \<Rightarrow> complex list" where
  "basis_vector bits = (replicate (2 ^ length bits) 0)[bits_index bits := 1]"

section \<open>Task 1: circuits of the codebooks\<close>

text \<open>Codercise 1.14.1 (two wires): the four Bell-basis preparations.\<close>

definition prepare_psi_plus :: "py_error + complex list" where
  "prepare_psi_plus = qml_state 2 [Hadamard 0, CNOT 0 1]"

definition prepare_psi_minus :: "py_error + complex list" where
  "prepare_psi_minus = qml_state 2 [PauliX 0, Hadamard 0, CNOT 0 1]"

definition prepare_phi_plus :: "py_error + complex list" where
  "prepare_phi_plus = qml_state 2 [Hadamard 1, PauliX 0, CNOT 1 0]"

definition prepare_phi_minus :: "py_error + complex list" where
  "prepare_phi_minus = qml_state 2 [PauliX 1, Hadamard 1, PauliX 0, PauliX 1, CNOT 1 0]"

text \<open>Codercise 1.9.1 (one wire).\<close>

definition apply_h_and_measure :: "int \<Rightarrow> py_error + real list" where
  "apply_h_and_measure state =
     qml_probs 1 ((if state = 1 then [PauliX 0] else []) @ [Hadamard 0])"

text \<open>Codercise 1.12.3 (three wires).\<close>

definition controlled_rotations :: "real \<Rightarrow> real \<Rightarrow> real \<Rightarrow> py_error + real list" where
  "controlled_rotations theta phi omega =
     qml_probs 3 [Hadamard 0, CRX theta 0 1, CRY phi 1 2, CRZ omega 2 0]"

text \<open>Codercises I.2.2 to I.2.4 (three wires).\<close>

definition my_circuit :: "real \<Rightarrow> real \<Rightarrow> real \<Rightarrow> py_error + real list" where
  "my_circuit theta phi omega =
     qml_probs 3 [RX theta 0, RY phi 1, RZ omega 2, CNOT 0 1, CNOT 1 2, CNOT 2 0]"

text \<open>Predicates used to state the results about the device.\<close>

definition unitary2 :: "matrix2 \<Rightarrow> bool" where
  "unitary2 m =
     (case m of (a, b, c, d) \<Rightarrow>
        cnj a * a + cnj c * c = 1 \<and> cnj b * b + cnj d * d = 1 \<and> cnj a * b + cnj c * d = 0)"

definition probability_vector :: "nat \<Rightarrow> real list \<Rightarrow> bool" where
  "probability_vector k p = (length p = k \<and> (\<forall>x \<in> set p. 0 \<le> x) \<and> sum_list p = 1)"

section \<open>Task 2: the variational parity classifier\<close>

text \<open>
  A weights tensor is a list of layers, a layer a list of rows, a row the three
  angles \<^verbatim>\<open>qml.Rot\<close> unpacks. \<^verbatim>\<open>layer\<close> reads the rows 0 to 3 of its argument, so a
  layer with fewer than four rows fails on the missing index.
\<close>

type_synonym layer_weights = "(real \<times> real \<times> real) list"

text \<open>
  \<^verbatim>\<open>
    def state_preparation(x):
        qml.BasisState(x, wires=[0, 1, 2, 3])

    def layer(layer_weights):
        for wire in range(4):
            qml.Rot(*layer_weights[wire], wires=wire)
        for wires in ([0, 1], [1, 2], [2, 3], [3, 0]):
            qml.CNOT(wires)

    def circuit(weights, x):
        state_preparation(x)
        for layer_weights in weights:
            layer(layer_weights)
        return qml.expval(qml.PauliZ(0))

    def variational_classifier(weights, bias, x):
        return circuit(weights, x) + bias
  \<close>
\<close>

definition state_preparation :: "int list \<Rightarrow> operation list" where
  "state_preparation x = [BasisState x [0, 1, 2, 3]]"

definition layer :: "layer_weights \<Rightarrow> py_error + operation list" where
  "layer layer_weights =
     (if length layer_weights < 4 then Inl IndexError
      else Inr (map (\<lambda>wire. case layer_weights ! wire of
                             (phi, theta, omega) \<Rightarrow> Rot phi theta omega wire) [0..<4]
                @ map (\<lambda>(c, t). CNOT c t) [(0, 1), (1, 2), (2, 3), (3, 0)]))"

text \<open>\<^verbatim>\<open>for layer_weights in weights: layer(layer_weights)\<close>\<close>

fun layers :: "layer_weights list \<Rightarrow> py_error + operation list" where
  "layers [] = Inr []"
| "layers (layer_weights # rest) =
     (case layer layer_weights of
        Inl e \<Rightarrow> Inl e
      | Inr ops \<Rightarrow> (case layers rest of Inl e \<Rightarrow> Inl e | Inr ops' \<Rightarrow> Inr (ops @ ops')))"

text \<open>
  The queue of \<^verbatim>\<open>circuit\<close>: the encoding, then the layers. The device is created with
  no wire count and takes the four wires the queue names.
\<close>

definition circuit_tape :: "layer_weights list \<Rightarrow> int list \<Rightarrow> py_error + operation list" where
  "circuit_tape weights x =
     (case layers weights of Inl e \<Rightarrow> Inl e | Inr ops \<Rightarrow> Inr (state_preparation x @ ops))"

definition circuit :: "layer_weights list \<Rightarrow> int list \<Rightarrow> py_error + real" where
  "circuit weights x =
     (case circuit_tape weights x of
        Inl e \<Rightarrow> Inl e
      | Inr tape \<Rightarrow> qml_expval_PauliZ 4 tape 0)"

definition variational_classifier :: "layer_weights list \<Rightarrow> real \<Rightarrow> int list \<Rightarrow> py_error + real" where
  "variational_classifier weights bias x =
     (case circuit weights x of Inl e \<Rightarrow> Inl e | Inr v \<Rightarrow> Inr (v + bias))"

text \<open>A list comprehension over a function that may raise stops at the first error.\<close>

fun comprehension :: "('a \<Rightarrow> py_error + 'b) \<Rightarrow> 'a list \<Rightarrow> py_error + 'b list" where
  "comprehension f [] = Inr []"
| "comprehension f (x # xs) =
     (case f x of
        Inl e \<Rightarrow> Inl e
      | Inr y \<Rightarrow> (case comprehension f xs of Inl e \<Rightarrow> Inl e | Inr ys \<Rightarrow> Inr (y # ys)))"

definition cost :: "layer_weights list \<Rightarrow> real \<Rightarrow> int list list \<Rightarrow> real list \<Rightarrow> py_error + real" where
  "cost weights bias X Y =
     (case comprehension (variational_classifier weights bias) X of
        Inl e \<Rightarrow> Inl e
      | Inr predictions \<Rightarrow> square_loss Y predictions)"

text \<open>The name and the wires of an operation, as PennyLane reports them.\<close>

fun op_name :: "operation \<Rightarrow> string" where
  "op_name (BasisState _ _) = ''BasisState''"
| "op_name (Hadamard _) = ''Hadamard''"
| "op_name (PauliX _) = ''PauliX''"
| "op_name (RX _ _) = ''RX''"
| "op_name (RY _ _) = ''RY''"
| "op_name (RZ _ _) = ''RZ''"
| "op_name (Rot _ _ _ _) = ''Rot''"
| "op_name (CNOT _ _) = ''CNOT''"
| "op_name (CRX _ _ _) = ''CRX''"
| "op_name (CRY _ _ _) = ''CRY''"
| "op_name (CRZ _ _ _) = ''CRZ''"

fun op_wires :: "operation \<Rightarrow> nat list" where
  "op_wires (BasisState _ ws) = ws"
| "op_wires (Hadamard w) = [w]"
| "op_wires (PauliX w) = [w]"
| "op_wires (RX _ w) = [w]"
| "op_wires (RY _ w) = [w]"
| "op_wires (RZ _ w) = [w]"
| "op_wires (Rot _ _ _ w) = [w]"
| "op_wires (CNOT c t) = [c, t]"
| "op_wires (CRX _ c t) = [c, t]"
| "op_wires (CRY _ c t) = [c, t]"
| "op_wires (CRZ _ c t) = [c, t]"

definition layer_pattern :: "(string \<times> nat list) list" where
  "layer_pattern =
     [(''Rot'', [0]), (''Rot'', [1]), (''Rot'', [2]), (''Rot'', [3]),
      (''CNOT'', [0, 1]), (''CNOT'', [1, 2]), (''CNOT'', [2, 3]), (''CNOT'', [3, 0])]"

text \<open>The inputs the classifier is meant for: bit strings of length four.\<close>

definition four_bit :: "int list \<Rightarrow> bool" where
  "four_bit x = (length x = 4 \<and> set x \<subseteq> {0, 1})"

text \<open>The operations one layer queues, written out.\<close>

definition layer_ops :: "layer_weights \<Rightarrow> operation list" where
  "layer_ops lw =
     [case lw ! 0 of (phi, theta, omega) \<Rightarrow> Rot phi theta omega 0,
      case lw ! 1 of (phi, theta, omega) \<Rightarrow> Rot phi theta omega 1,
      case lw ! 2 of (phi, theta, omega) \<Rightarrow> Rot phi theta omega 2,
      case lw ! 3 of (phi, theta, omega) \<Rightarrow> Rot phi theta omega 3,
      CNOT 0 1, CNOT 1 2, CNOT 2 3, CNOT 3 0]"

subsection \<open>The training loop\<close>

text \<open>
  The notebook's globals during training. The optimizer object and NumPy's random
  generator are library objects with internal state (the momentum accumulated by
  \<^verbatim>\<open>NesterovMomentumOptimizer\<close>, the generator's position); their states are carried
  along, and their steps are parameters: \<open>below high g\<close> is one integer draw of the
  generator from \<open>0\<close> up to \<open>high\<close> excluded, and \<open>opt_step\<close> is \<^verbatim>\<open>opt.step\<close> applied to
  an objective of the weights and the bias. \<open>printed\<close> collects the lines the loop
  prints: iteration number, cost and accuracy.
\<close>

record ('o, 'g) training =
  cur_weights :: "layer_weights list"
  cur_bias :: real
  data_X :: "int list list"
  data_Y :: "real list"
  batch_size :: nat
  opt_state :: 'o
  rng_state :: 'g
  printed :: "(nat \<times> real \<times> real) list"

type_synonym 'o optimizer =
  "'o \<Rightarrow> (layer_weights list \<Rightarrow> real \<Rightarrow> py_error + real) \<Rightarrow> layer_weights list \<Rightarrow> real
     \<Rightarrow> py_error + (layer_weights list \<times> real \<times> 'o)"

fun randint_draws :: "(nat \<Rightarrow> 'g \<Rightarrow> nat \<times> 'g) \<Rightarrow> nat \<Rightarrow> nat \<Rightarrow> 'g \<Rightarrow> nat list \<times> 'g" where
  "randint_draws below high 0 g = ([], g)"
| "randint_draws below high (Suc k) g =
     (case below high g of
        (i, g') \<Rightarrow> (case randint_draws below high k g' of (rest, g'') \<Rightarrow> (i # rest, g'')))"

text \<open>\<^verbatim>\<open>np.random.randint(0, high, (count,))\<close> rejects an empty range.\<close>

definition randint ::
  "(nat \<Rightarrow> 'g \<Rightarrow> nat \<times> 'g) \<Rightarrow> nat \<Rightarrow> nat \<Rightarrow> 'g \<Rightarrow> py_error + (nat list \<times> 'g)" where
  "randint below high count g =
     (if high = 0 then Inl ValueError else Inr (randint_draws below high count g))"

text \<open>Indexing an array with an array of indices: \<^verbatim>\<open>X[batch_index]\<close>.\<close>

definition take_rows :: "'a list \<Rightarrow> nat list \<Rightarrow> py_error + 'a list" where
  "take_rows xs idx =
     (if \<forall>i \<in> set idx. i < length xs then Inr (map (\<lambda>i. xs ! i) idx) else Inl IndexError)"

text \<open>
  The body of the loop:
  \<^verbatim>\<open>
    batch_index = np.random.randint(0, len(X), (batch_size,))
    X_batch = X[batch_index]
    Y_batch = Y[batch_index]
    weights, bias = opt.step(cost, weights, bias, X=X_batch, Y=Y_batch)
    predictions = [np.sign(variational_classifier(weights, bias, x)) for x in X]
    current_cost = cost(weights, bias, X, Y)
    acc = accuracy(Y, predictions)
    print(...)
  \<close>
\<close>

definition signed_classifier :: "layer_weights list \<Rightarrow> real \<Rightarrow> int list \<Rightarrow> py_error + real" where
  "signed_classifier weights bias x =
     (case variational_classifier weights bias x of Inl e \<Rightarrow> Inl e | Inr v \<Rightarrow> Inr (sgn v))"

definition train_step ::
  "'o optimizer \<Rightarrow> (nat \<Rightarrow> 'g \<Rightarrow> nat \<times> 'g) \<Rightarrow> nat \<Rightarrow> ('o, 'g) training
     \<Rightarrow> py_error + ('o, 'g) training" where
  "train_step opt_step below it s =
     (case randint below (length (data_X s)) (batch_size s) (rng_state s) of
        Inl e \<Rightarrow> Inl e
      | Inr (batch_index, g') \<Rightarrow>
     (case take_rows (data_X s) batch_index of
        Inl e \<Rightarrow> Inl e
      | Inr X_batch \<Rightarrow>
     (case take_rows (data_Y s) batch_index of
        Inl e \<Rightarrow> Inl e
      | Inr Y_batch \<Rightarrow>
     (case opt_step (opt_state s) (\<lambda>w b. cost w b X_batch Y_batch) (cur_weights s) (cur_bias s) of
        Inl e \<Rightarrow> Inl e
      | Inr (weights', bias', opt') \<Rightarrow>
     (case comprehension (signed_classifier weights' bias') (data_X s) of
        Inl e \<Rightarrow> Inl e
      | Inr predictions \<Rightarrow>
     (case cost weights' bias' (data_X s) (data_Y s) of
        Inl e \<Rightarrow> Inl e
      | Inr current_cost \<Rightarrow>
     (case accuracy (data_Y s) predictions of
        Inl e \<Rightarrow> Inl e
      | Inr acc \<Rightarrow>
          Inr (s\<lparr>cur_weights := weights', cur_bias := bias', opt_state := opt',
                 rng_state := g', printed := printed s @ [(it + 1, current_cost, acc)]\<rparr>))))))))"

text \<open>\<^verbatim>\<open>for it in range(60)\<close>\<close>

fun train_loop ::
  "'o optimizer \<Rightarrow> (nat \<Rightarrow> 'g \<Rightarrow> nat \<times> 'g) \<Rightarrow> nat list \<Rightarrow> ('o, 'g) training
     \<Rightarrow> py_error + ('o, 'g) training" where
  "train_loop opt_step below [] s = Inr s"
| "train_loop opt_step below (it # rest) s =
     (case train_step opt_step below it s of
        Inl e \<Rightarrow> Inl e
      | Inr s' \<Rightarrow> train_loop opt_step below rest s')"

definition training_run ::
  "'o optimizer \<Rightarrow> (nat \<Rightarrow> 'g \<Rightarrow> nat \<times> 'g) \<Rightarrow> ('o, 'g) training \<Rightarrow> py_error + ('o, 'g) training" where
  "training_run opt_step below s = train_loop opt_step below [0..<60] s"

text \<open>
  Stand-ins for the two library objects, for evaluation: a generator that counts up
  modulo the bound, and an optimizer that evaluates the objective and moves the bias
  against it.
\<close>

definition counting_below :: "nat \<Rightarrow> nat \<Rightarrow> nat \<times> nat" where
  "counting_below high g = (g mod high, Suc g)"

definition bias_descent :: "nat optimizer" where
  "bias_descent k objective w b =
     (case objective w b of Inl e \<Rightarrow> Inl e | Inr c \<Rightarrow> Inr (w, b - c / 2, Suc k))"

definition parity_sample :: "(nat, nat) training" where
  "parity_sample =
     \<lparr>cur_weights = [], cur_bias = 0,
      data_X = [[0, 0, 0, 1], [0, 1, 0, 1], [1, 1, 1, 1]], data_Y = [1, - 1, - 1],
      batch_size = 5, opt_state = 0, rng_state = 0, printed = []\<rparr>"

text \<open>
  Conditions under which the training loop runs to its end: weights of at least four
  rows per layer; a non-empty training set of four-bit inputs with one label each and
  a positive batch size; a generator whose bounded draws stay below the bound; and an
  optimizer that returns well-shaped weights whenever its objective is defined on all
  well-shaped weights.
\<close>

definition shaped :: "layer_weights list \<Rightarrow> bool" where
  "shaped weights = list_all (\<lambda>lw. 4 \<le> length lw) weights"

definition trainable :: "('o, 'g) training \<Rightarrow> bool" where
  "trainable s =
     (shaped (cur_weights s) \<and> data_X s \<noteq> [] \<and> list_all four_bit (data_X s)
      \<and> length (data_Y s) = length (data_X s) \<and> 0 < batch_size s)"

definition bounded_draws :: "(nat \<Rightarrow> 'g \<Rightarrow> nat \<times> 'g) \<Rightarrow> bool" where
  "bounded_draws below = (\<forall>high g. 0 < high \<longrightarrow> fst (below high g) < high)"

definition sound_optimizer :: "'o optimizer \<Rightarrow> bool" where
  "sound_optimizer opt_step =
     (\<forall>k objective w b.
        shaped w \<and> (\<forall>w' b'. shaped w' \<longrightarrow> (\<exists>c. objective w' b' = Inr c))
        \<longrightarrow> (\<exists>w' b' k'. opt_step k objective w b = Inr (w', b', k') \<and> shaped w'))"

section \<open>Results\<close>

subsection \<open>Accuracy\<close>

lemma close_pairs_card:
  "close_pairs labels predictions =
     card {i. i < length labels \<and> i < length predictions \<and> \<bar>labels ! i - predictions ! i\<bar> < 1 / 100000}"
proof -
  have "close_pairs labels predictions =
      card {i. i < length (zip labels predictions) \<and> (\<lambda>(l, p). \<bar>l - p\<bar> < 1 / 100000) (zip labels predictions ! i)}"
    unfolding close_pairs_def by (rule length_filter_conv_card)
  also have "{i. i < length (zip labels predictions) \<and> (\<lambda>(l, p). \<bar>l - p\<bar> < 1 / 100000) (zip labels predictions ! i)}
     = {i. i < length labels \<and> i < length predictions \<and> \<bar>labels ! i - predictions ! i\<bar> < 1 / 100000}"
    by auto
  finally show ?thesis .
qed

lemma close_pairs_le: "close_pairs labels predictions \<le> min (length labels) (length predictions)"
proof -
  have "close_pairs labels predictions \<le> length (zip labels predictions)"
    unfolding close_pairs_def by (rule length_filter_le)
  then show ?thesis by simp
qed

text \<open>
  Claim C10. For non-empty \<open>labels\<close>, \<^verbatim>\<open>accuracy\<close> returns the number of positions below
  both lengths at which label and prediction differ by less than \<open>1e-5\<close>, divided by
  the length of \<open>labels\<close>. The result lies between 0 and 1; it is also bounded by the
  length of \<open>predictions\<close> over the length of \<open>labels\<close>, since positions past the end
  of a shorter \<open>predictions\<close> are not counted while the divisor stays the same.
\<close>

theorem accuracy_spec:
  assumes "labels \<noteq> []"
  shows "\<exists>r. accuracy labels predictions = Inr r
     \<and> r = real (card {i. i < length labels \<and> i < length predictions
                        \<and> \<bar>labels ! i - predictions ! i\<bar> < 1 / 100000}) / real (length labels)
     \<and> 0 \<le> r \<and> r \<le> 1
     \<and> r \<le> real (length predictions) / real (length labels)"
proof -
  let ?n = "length labels"
  let ?k = "close_pairs labels predictions"
  from assms have n: "0 < ?n" by simp
  have acc: "accuracy labels predictions = Inr (real ?k / real ?n)"
    using n by (simp add: accuracy_def Let_def)
  have k1: "?k \<le> ?n" and k2: "?k \<le> length predictions"
    using close_pairs_le [of labels predictions] by simp_all
  have "real ?k / real ?n \<le> 1" using n k1 by simp
  moreover have "real ?k / real ?n \<le> real (length predictions) / real ?n"
    using n k2 by (simp add: divide_right_mono)
  moreover have "0 \<le> real ?k / real ?n" by simp
  ultimately show ?thesis
    using acc close_pairs_card [of labels predictions] by simp
qed

text \<open>Three labels against two predictions: one close pair out of three labels.\<close>

theorem accuracy_spec_witness:
  "[1, -1, 1] \<noteq> ([] :: real list)
   \<and> (\<exists>r. accuracy [1, -1, 1] [1, 1] = Inr r \<and> 0 \<le> r \<and> r \<le> 2 / 3)"
  using accuracy_spec [of "[1, -1, 1]" "[1, 1]"] by auto

subsection \<open>Normalisation and sampling\<close>

lemma thresholds: "underflow_threshold < overflow_threshold" "0 < underflow_threshold"
  "0 < overflow_threshold"
  by (simp_all add: underflow_threshold_def overflow_threshold_def)

lemma round64_zero: "round64 0 = Fin 0"
  using thresholds by (simp add: round64_def)

lemma normalize_state_floats:
  "normalize_state (PyFloat a) (PyFloat b) =
     FloatArray
       [f_div (Fin a) (f_sqrt (f_add (f_add (Fin 0) (round64 (a * a))) (round64 (b * b)))),
        f_div (Fin b) (f_sqrt (f_add (f_add (Fin 0) (round64 (a * a))) (round64 (b * b))))]"
  by (simp add: normalize_state_def dot_def)

lemma squares_underflow:
  assumes "round64 (a * a) = Fin 0" "0 < a"
  shows "normalize_state (PyFloat a) (PyFloat a) = FloatArray [PInf, PInf]"
  using assms by (simp add: normalize_state_floats round64_zero)

lemma squares_overflow:
  assumes "round64 (a * a) = PInf"
  shows "normalize_state (PyFloat a) (PyFloat a) = FloatArray [Fin 0, Fin 0]"
  using assms by (simp add: normalize_state_floats)

lemma round64_tiny: "round64 (1 / 10 ^ 200 * (1 / 10 ^ 200)) = Fin 0"
  by (simp add: round64_def underflow_threshold_def overflow_threshold_def)

lemma round64_huge: "round64 (10 ^ 200 * 10 ^ 200) = PInf"
  by (simp add: round64_def underflow_threshold_def overflow_threshold_def)

lemma round64_in_range:
  assumes "underflow_threshold < x" "x < overflow_threshold"
  shows "round64 x = Fin x"
proof -
  from assms thresholds have "0 < x" "\<not> x \<le> - overflow_threshold" "\<not> \<bar>x\<bar> \<le> underflow_threshold"
    by linarith+
  with assms show ?thesis by (simp add: round64_def)
qed

lemma sqrt2_bounds: "1 \<le> sqrt 2" "sqrt 2 \<le> 2"
proof -
  show "1 \<le> sqrt 2" by simp
  show "sqrt 2 \<le> 2" by (rule real_le_lsqrt) simp_all
qed

lemma sqrt2_in_range: "round64 (sqrt 2) = Fin (sqrt 2)"
proof (rule round64_in_range)
  have "underflow_threshold < 1" by (simp add: underflow_threshold_def)
  with sqrt2_bounds(1) show "underflow_threshold < sqrt 2" by linarith
  have "2 < overflow_threshold" by (simp add: overflow_threshold_def)
  with sqrt2_bounds(2) show "sqrt 2 < overflow_threshold" by linarith
qed

lemma inv_sqrt2_in_range: "round64 (1 / sqrt 2) = Fin (1 / sqrt 2)"
proof (rule round64_in_range)
  have pos: "0 < sqrt 2" by simp
  have lo: "1 / 2 \<le> 1 / sqrt 2"
    using sqrt2_bounds(2) pos by (intro divide_left_mono) simp_all
  have hi: "1 / sqrt 2 \<le> 1"
    using sqrt2_bounds(1) pos by (simp add: divide_le_eq)
  have "underflow_threshold < 1 / 2" by (simp add: underflow_threshold_def)
  with lo show "underflow_threshold < 1 / sqrt 2" by linarith
  have "1 < overflow_threshold" by (simp add: overflow_threshold_def)
  with hi show "1 / sqrt 2 < overflow_threshold" by linarith
qed

lemma round64_small_numbers: "round64 1 = Fin 1" "round64 2 = Fin 2"
  by (simp_all add: round64_def underflow_threshold_def overflow_threshold_def)

text \<open>The notebook's test \<^verbatim>\<open>normalize_state(1, 1)\<close> prints \<open>[0.70710678 0.70710678]\<close>.\<close>

lemma normalize_state_ones:
  "normalize_state (PyFloat 1) (PyFloat 1) = FloatArray [Fin (1 / sqrt 2), Fin (1 / sqrt 2)]"
  by (simp add: normalize_state_floats round64_zero round64_small_numbers sqrt2_in_range
      inv_sqrt2_in_range)

text \<open>
  Two zero amplitudes: the division by the zero norm is reached, and every entry of
  the result is \<open>nan\<close>.
\<close>

lemma normalize_state_zero: "normalize_state (PyFloat 0) (PyFloat 0) = FloatArray [NaN, NaN]"
  by (simp add: normalize_state_floats round64_zero)

lemma normalize_state_complex_zero:
  "normalize_state (PyComplex 0 0) (PyComplex 0 0) = ComplexArray [(NaN, NaN), (NaN, NaN)]"
  by (simp add: normalize_state_def dot_def round64_zero complex_div_real_def)

text \<open>
  Claim C9 fails on the code where the squares of the amplitudes leave the range of
  \<open>float64\<close>. At \<open>(1e-200, 1e-200)\<close> the squares underflow to zero, the norm is zero
  and the division returns \<open>[inf, inf]\<close>; at \<open>(1e200, 1e200)\<close> the squares overflow, the
  norm is infinite and the division returns \<open>[0, 0]\<close>. Neither is a vector of norm 1,
  though the amplitudes are not both zero.
\<close>

theorem normalize_state_extremes:
  "normalize_state (PyFloat (1 / 10 ^ 200)) (PyFloat (1 / 10 ^ 200)) = FloatArray [PInf, PInf]
   \<and> normalize_state (PyFloat (10 ^ 200)) (PyFloat (10 ^ 200)) = FloatArray [Fin 0, Fin 0]"
proof
  have "(0::real) < 1 / 10 ^ 200" by simp
  with round64_tiny
  show "normalize_state (PyFloat (1 / 10 ^ 200)) (PyFloat (1 / 10 ^ 200)) = FloatArray [PInf, PInf]"
    by (rule squares_underflow)
  from round64_huge
  show "normalize_state (PyFloat (10 ^ 200)) (PyFloat (10 ^ 200)) = FloatArray [Fin 0, Fin 0]"
    by (rule squares_overflow)
qed

text \<open>
  The same happens at amplitudes that are powers of two, which \<open>float64\<close> holds exactly.
\<close>

lemma normalize_state_powers_of_two:
  "normalize_state (PyFloat (1 / 2 ^ 600)) (PyFloat (1 / 2 ^ 600)) = FloatArray [PInf, PInf]
   \<and> normalize_state (PyFloat (2 ^ 600)) (PyFloat (2 ^ 600)) = FloatArray [Fin 0, Fin 0]"
proof
  have "round64 (1 / 2 ^ 600 * (1 / 2 ^ 600)) = Fin 0"
    by (simp add: round64_def underflow_threshold_def overflow_threshold_def)
  moreover have "(0::real) < 1 / 2 ^ 600" by simp
  ultimately
  show "normalize_state (PyFloat (1 / 2 ^ 600)) (PyFloat (1 / 2 ^ 600)) = FloatArray [PInf, PInf]"
    by (rule squares_underflow)
  have "round64 (2 ^ 600 * 2 ^ 600) = PInf"
    by (simp add: round64_def underflow_threshold_def overflow_threshold_def)
  then show "normalize_state (PyFloat (2 ^ 600)) (PyFloat (2 ^ 600)) = FloatArray [Fin 0, Fin 0]"
    by (rule squares_overflow)
qed

lemma measure_loop_upt:
  "length outcomes = i + n \<Longrightarrow>
   measure_loop random p [i..<i + n] outcomes g =
     (take i outcomes @ map (\<lambda>x. if x < p then 0 else 1) (draws random n g), advance random n g)"
proof (induction n arbitrary: i outcomes g)
  case 0
  then show ?case by simp
next
  case (Suc n)
  obtain x g' where r: "random g = (x, g')" by (cases "random g")
  let ?o = "if x < p then outcomes[i := 0] else outcomes[i := 1]"
  have len: "length ?o = Suc i + n" using Suc.prems by simp
  have up: "[i..<i + Suc n] = i # [Suc i..<Suc i + n]"
    by (simp add: upt_conv_Cons)
  have "measure_loop random p [i..<i + Suc n] outcomes g
      = measure_loop random p [Suc i..<Suc i + n] ?o g'"
    by (simp only: up measure_loop.simps r prod.case)
  also have "\<dots> = (take (Suc i) ?o @ map (\<lambda>x. if x < p then 0 else 1) (draws random n g'),
                    advance random n g')"
    using Suc.IH [OF len] .
  also have "take (Suc i) ?o = take i outcomes @ [if x < p then 0 else 1]"
    using Suc.prems by (simp add: take_Suc_conv_app_nth)
  finally show ?case by (simp add: r)
qed

text \<open>
  Claim C4 as stated fails: a second evaluation on the same arguments starts from the
  generator state the first one left, and returns a different outcome.
\<close>

theorem measure_state_counterexample:
  "measure_state alternating_random [707 / 1000, 707 / 1000] 1 0 = Inr ([0], 1)
   \<and> measure_state alternating_random [707 / 1000, 707 / 1000] 1 1 = Inr ([1], 2)"
  by (simp add: measure_state_def alternating_random_def power2_eq_square)

lemma apply_u_initial: "apply_u initialize_state = Inr [inv_sqrt2, inv_sqrt2]"
  by (simp add: apply_u_def initialize_state_def matvec2_def U_def inv_sqrt2_def)

lemma cmod_inv_sqrt2: "(cmod inv_sqrt2)\<^sup>2 = 1 / 2"
  by (simp add: inv_sqrt2_def norm_divide power_divide)

lemma quantum_algorithm_draws:
  "quantum_algorithm random g =
     Inr (map (\<lambda>x. if x < 1 / 2 then 0 else 1) (draws random 100 g), advance random 100 g)"
  by (simp add: quantum_algorithm_def apply_u_initial measure_state_choice_def random_choice_def
      cmod_inv_sqrt2)

text \<open>
  Claim C4, as amended. \<^verbatim>\<open>measure_state\<close> and \<^verbatim>\<open>quantum_algorithm\<close> are functions of their
  arguments and of the state of the random generator: the outcomes are the next draws
  of the generator compared with the probability of reading 0, and the generator is
  left advanced by as many draws as there are outcomes.
\<close>

theorem sampling_reads_generator:
  "(state \<noteq> [] \<longrightarrow>
      measure_state random state num_meas g =
        Inr (map (\<lambda>x. if x < (cmod (state ! 0))\<^sup>2 then 0 else 1) (draws random (nat num_meas) g),
             advance random (nat num_meas) g))
   \<and> quantum_algorithm random g =
        Inr (map (\<lambda>x. if x < 1 / 2 then 0 else 1) (draws random 100 g), advance random 100 g)"
  using measure_loop_upt [of "replicate (nat num_meas) 0" 0 "nat num_meas" random "(cmod (state ! 0))\<^sup>2" g]
  by (simp add: measure_state_def Let_def quantum_algorithm_draws)

text \<open>The alternating generator, two measurements of the notebook's test state.\<close>

theorem sampling_reads_generator_witness:
  "[707 / 1000, 707 / 1000] \<noteq> ([] :: complex list)
   \<and> measure_state alternating_random [707 / 1000, 707 / 1000] 2 0 = Inr ([0, 1], 2)"
proof -
  have d: "draws alternating_random 2 0 = [3 / 10, 7 / 10]"
    by (simp add: eval_nat_numeral alternating_random_def)
  have a: "advance alternating_random 2 0 = 2"
    by (simp add: eval_nat_numeral alternating_random_def)
  show ?thesis
    using sampling_reads_generator [of "[707 / 1000, 707 / 1000]" alternating_random 2 0]
    by (simp add: d a power2_eq_square)
qed

subsection \<open>Unitary gates preserve the norm\<close>

lemma unitary_pair_amp:
  assumes "cnj a * a + cnj c * c = 1" "cnj b * b + cnj d * d = 1" "cnj a * b + cnj c * d = 0"
  shows "(cmod (a * x + b * y))\<^sup>2 + (cmod (c * x + d * y))\<^sup>2 = (cmod x)\<^sup>2 + (cmod y)\<^sup>2"
proof -
  have conj0: "a * cnj b + c * cnj d = 0"
  proof -
    have "cnj (cnj a * b + cnj c * d) = 0" using assms(3) by simp
    then show ?thesis by simp
  qed
  have sq: "(complex_of_real (cmod z))\<^sup>2 = z * cnj z" for z
    using complex_norm_square [of z] by simp
  have "complex_of_real ((cmod (a * x + b * y))\<^sup>2 + (cmod (c * x + d * y))\<^sup>2)
      = (a * x + b * y) * cnj (a * x + b * y) + (c * x + d * y) * cnj (c * x + d * y)"
    by (simp add: sq)
  also have "\<dots> = (cnj a * a + cnj c * c) * (x * cnj x) + (cnj b * b + cnj d * d) * (y * cnj y)
      + (cnj a * b + cnj c * d) * (y * cnj x) + (a * cnj b + c * cnj d) * (x * cnj y)"
    by (simp add: algebra_simps)
  also have "\<dots> = x * cnj x + y * cnj y"
    by (simp only: assms conj0) simp
  also have "\<dots> = complex_of_real ((cmod x)\<^sup>2 + (cmod y)\<^sup>2)"
    by (simp add: sq)
  finally show ?thesis by (simp only: of_real_eq_iff)
qed

lemma register_scale: "register n s \<Longrightarrow> register n (scale k s)"
  by (induction n s rule: register.induct) auto

lemma register_add: "register n a \<Longrightarrow> register n b \<Longrightarrow> register n (add a b)"
proof (induction n a arbitrary: b rule: register.induct)
  case (1 c)
  then show ?case by (cases b) auto
next
  case (2 n a1 a2)
  then show ?case by (cases b) auto
qed auto

lemma on_pair_norm2:
  assumes "unitary2 m"
  shows "register n a \<Longrightarrow> register n b \<Longrightarrow>
    norm2 (fst (on_pair m a b)) + norm2 (snd (on_pair m a b)) = norm2 a + norm2 b"
proof (induction n a arbitrary: b rule: register.induct)
  case (1 x)
  then obtain y where b: "b = Amp y" by (cases b) auto
  obtain m00 m01 m10 m11 where m: "m = (m00, m01, m10, m11)" by (cases m) auto
  show ?case using assms unitary_pair_amp [of m00 m10 m01 m11 x y]
    by (simp add: b m unitary2_def)
next
  case (2 n a0 a1)
  then obtain b0 b1 where b: "b = Q b0 b1" and r: "register n b0" "register n b1"
    by (cases b) auto
  obtain m00 m01 m10 m11 where m: "m = (m00, m01, m10, m11)" by (cases m) auto
  have "norm2 (fst (on_pair m a0 b0)) + norm2 (snd (on_pair m a0 b0)) = norm2 a0 + norm2 b0"
    using 2 r by simp
  moreover have "norm2 (fst (on_pair m a1 b1)) + norm2 (snd (on_pair m a1 b1)) = norm2 a1 + norm2 b1"
    using 2 r by simp
  ultimately show ?case by (simp add: b m)
qed auto

lemma on_pair_register:
  "register n a \<Longrightarrow> register n b \<Longrightarrow>
   register n (fst (on_pair m a b)) \<and> register n (snd (on_pair m a b))"
  by (cases m) (simp add: register_add register_scale)

lemma apply_single_register: "register n s \<Longrightarrow> register n (apply_single m w s)"
proof (induction m w s arbitrary: n rule: apply_single.induct)
  case (1 m w c)
  then show ?case by simp
next
  case (2 m a b)
  then obtain k where n: "n = Suc k" and r: "register k a" "register k b"
    by (cases n) auto
  show ?case using on_pair_register [OF r, of m] by (simp add: n case_prod_beta)
next
  case (3 m w a b)
  then show ?case by (cases n) auto
qed

lemma apply_single_norm2:
  "unitary2 m \<Longrightarrow> register n s \<Longrightarrow> norm2 (apply_single m w s) = norm2 s"
proof (induction m w s arbitrary: n rule: apply_single.induct)
  case (1 m w c)
  then show ?case by simp
next
  case (2 m a b)
  then obtain k where n: "n = Suc k" and r: "register k a" "register k b"
    by (cases n) auto
  show ?case using on_pair_norm2 [OF "2.prems"(1) r] by (simp add: case_prod_beta)
next
  case (3 m w a b)
  then show ?case by (cases n) auto
qed

lemma pair_ctrl_register:
  "register n a \<Longrightarrow> register n b \<Longrightarrow>
   register n (fst (pair_ctrl m k a b)) \<and> register n (snd (pair_ctrl m k a b))"
proof (induction m k a b arbitrary: n rule: pair_ctrl.induct)
  case (1 m a0 a1 b0 b1)
  then obtain j where n: "n = Suc j" and r: "register j a0" "register j a1" "register j b0" "register j b1"
    by (cases n) auto
  show ?case using on_pair_register [OF r(2) r(4), of m] r by (simp add: n case_prod_beta)
next
  case (2 m k a0 a1 b0 b1)
  then obtain j where n: "n = Suc j" and r: "register j a0" "register j a1" "register j b0" "register j b1"
    by (cases n) auto
  show ?case using "2.IH"(1) [OF r(1) r(3)] "2.IH"(2) [OF _ r(2) r(4)]
    by (simp add: n case_prod_beta prod_eq_iff)
qed auto

lemma pair_ctrl_norm2:
  "unitary2 m \<Longrightarrow> register n a \<Longrightarrow> register n b \<Longrightarrow>
   norm2 (fst (pair_ctrl m k a b)) + norm2 (snd (pair_ctrl m k a b)) = norm2 a + norm2 b"
proof (induction m k a b arbitrary: n rule: pair_ctrl.induct)
  case (1 m a0 a1 b0 b1)
  then obtain j where n: "n = Suc j" and r: "register j a0" "register j a1" "register j b0" "register j b1"
    by (cases n) auto
  show ?case using on_pair_norm2 [OF "1.prems"(1) r(2) r(4)] by (simp add: case_prod_beta)
next
  case (2 m k a0 a1 b0 b1)
  then obtain j where n: "n = Suc j" and r: "register j a0" "register j a1" "register j b0" "register j b1"
    by (cases n) auto
  show ?case using "2.IH"(1) [OF "2.prems"(1) r(1) r(3)] "2.IH"(2) [OF _ "2.prems"(1) r(2) r(4)]
    by (simp add: case_prod_beta prod_eq_iff)
qed auto

lemma ctrl_above_register: "register n s \<Longrightarrow> register n (ctrl_above m c k s)"
proof (induction m c k s arbitrary: n rule: ctrl_above.induct)
  case (2 m k a b)
  then show ?case by (cases n) (auto simp: apply_single_register)
next
  case (3 m c k a b)
  then show ?case by (cases n) auto
qed auto

lemma ctrl_above_norm2:
  "unitary2 m \<Longrightarrow> register n s \<Longrightarrow> norm2 (ctrl_above m c k s) = norm2 s"
proof (induction m c k s arbitrary: n rule: ctrl_above.induct)
  case (2 m k a b)
  then show ?case by (cases n) (auto simp: apply_single_norm2)
next
  case (3 m c k a b)
  then show ?case by (cases n) auto
qed auto

lemma ctrl_below_register: "register n s \<Longrightarrow> register n (ctrl_below m t k s)"
proof (induction m t k s arbitrary: n rule: ctrl_below.induct)
  case (2 m k a b)
  then obtain j where n: "n = Suc j" and r: "register j a" "register j b"
    by (cases n) auto
  show ?case using pair_ctrl_register [OF r, of m k] by (simp add: n case_prod_beta)
next
  case (3 m t k a b)
  then show ?case by (cases n) auto
qed auto

lemma ctrl_below_norm2:
  "unitary2 m \<Longrightarrow> register n s \<Longrightarrow> norm2 (ctrl_below m t k s) = norm2 s"
proof (induction m t k s arbitrary: n rule: ctrl_below.induct)
  case (2 m k a b)
  then obtain j where n: "n = Suc j" and r: "register j a" "register j b"
    by (cases n) auto
  show ?case using pair_ctrl_norm2 [OF "2.prems"(1) r, of k] by (simp add: case_prod_beta)
next
  case (3 m t k a b)
  then show ?case by (cases n) auto
qed auto

lemma apply_controlled_register: "register n s \<Longrightarrow> register n (apply_controlled m c t s)"
  by (simp add: apply_controlled_def ctrl_above_register ctrl_below_register)

lemma apply_controlled_norm2:
  "unitary2 m \<Longrightarrow> register n s \<Longrightarrow> norm2 (apply_controlled m c t s) = norm2 s"
  by (simp add: apply_controlled_def ctrl_above_norm2 ctrl_below_norm2)

lemma unitary2_hadamard: "unitary2 hadamard_matrix"
proof -
  have "complex_of_real (sqrt 2) * complex_of_real (sqrt 2) = 2"
    by (metis of_real_mult of_real_numeral real_sqrt_mult_self abs_numeral)
  then show ?thesis
    by (simp add: unitary2_def hadamard_matrix_def inv_sqrt2_def field_simps)
qed

lemma unitary2_paulix: "unitary2 paulix_matrix"
  by (simp add: unitary2_def paulix_matrix_def)

lemma cos_sin_complex: "complex_of_real (cos x) * complex_of_real (cos x)
   + complex_of_real (sin x) * complex_of_real (sin x) = 1"
proof -
  have "complex_of_real ((cos x)\<^sup>2 + (sin x)\<^sup>2) = 1" by simp
  then show ?thesis by (simp only: of_real_add of_real_mult power2_eq_square)
qed

lemma unitary2_rx: "unitary2 (rx_matrix theta)"
  using cos_sin_complex [of "theta / 2"]
  by (simp add: unitary2_def rx_matrix_def algebra_simps)

lemma unitary2_ry: "unitary2 (ry_matrix theta)"
  using cos_sin_complex [of "theta / 2"]
  by (simp add: unitary2_def ry_matrix_def algebra_simps)

lemma unitary2_rz: "unitary2 (rz_matrix theta)"
  by (simp add: unitary2_def rz_matrix_def cis_mult cis_cnj)

subsection \<open>Execution on the device\<close>

lemma register_null: "register n (null_state n)"
  by (induction n) auto

lemma register_zero: "register n (zero_state n)"
  by (induction n) (auto simp: register_null)

lemma norm2_null: "norm2 (null_state n) = 0"
  by (induction n) auto

lemma norm2_zero: "norm2 (zero_state n) = 1"
  by (induction n) (auto simp: norm2_null)

lemma length_amplitudes: "register n s \<Longrightarrow> length (amplitudes s) = 2 ^ n"
  by (induction n s rule: register.induct) auto

lemma sum_list_probs: "sum_list (map (\<lambda>z. (cmod z)\<^sup>2) (amplitudes s)) = norm2 s"
  by (induction s) auto

lemma basis_flips_register: "register n s \<Longrightarrow> register n (basis_flips bits wires s)"
proof -
  have "register n s \<Longrightarrow>
    register n (fold (\<lambda>(b, w) s'. if b = 1 then apply_single paulix_matrix w s' else s') ps s)" for ps
    by (induction ps arbitrary: s) (auto simp: apply_single_register)
  then show "register n s \<Longrightarrow> register n (basis_flips bits wires s)"
    by (simp add: basis_flips_def)
qed

lemma basis_flips_norm2: "register n s \<Longrightarrow> norm2 (basis_flips bits wires s) = norm2 s"
proof -
  have "register n s \<Longrightarrow>
    norm2 (fold (\<lambda>(b, w) s'. if b = 1 then apply_single paulix_matrix w s' else s') ps s) = norm2 s" for ps
    by (induction ps arbitrary: s)
       (auto simp: apply_single_register apply_single_norm2 unitary2_paulix)
  then show "register n s \<Longrightarrow> norm2 (basis_flips bits wires s) = norm2 s"
    by (simp add: basis_flips_def)
qed

lemmas unitary2_gates = unitary2_hadamard unitary2_paulix unitary2_rx unitary2_ry unitary2_rz

lemma rot_invariant:
  assumes "register n s"
  shows "register n (apply_single (rz_matrix omega) w
           (apply_single (ry_matrix theta) w (apply_single (rz_matrix phi) w s)))
       \<and> norm2 (apply_single (rz_matrix omega) w
           (apply_single (ry_matrix theta) w (apply_single (rz_matrix phi) w s))) = norm2 s"
proof -
  let ?s1 = "apply_single (rz_matrix phi) w s"
  let ?s2 = "apply_single (ry_matrix theta) w ?s1"
  have r1: "register n ?s1" using assms by (rule apply_single_register)
  have r2: "register n ?s2" using r1 by (rule apply_single_register)
  have "norm2 (apply_single (rz_matrix omega) w ?s2) = norm2 ?s2"
    using unitary2_rz r2 by (rule apply_single_norm2)
  also have "\<dots> = norm2 ?s1" using unitary2_ry r1 by (rule apply_single_norm2)
  also have "\<dots> = norm2 s" using unitary2_rz assms by (rule apply_single_norm2)
  finally show ?thesis using r2 by (simp add: apply_single_register)
qed

lemma apply_operation_invariant:
  assumes "register n s" "apply_operation n g s = Inr s'"
  shows "register n s' \<and> norm2 s' = norm2 s"
proof (cases g)
  case (Rot phi theta omega w)
  then show ?thesis using assms rot_invariant [OF assms(1), of omega w theta phi]
    by (auto split: if_splits)
qed (use assms in \<open>auto simp: single_wire_def two_wires_def apply_single_register apply_single_norm2
        apply_controlled_register apply_controlled_norm2 basis_flips_register basis_flips_norm2
        unitary2_gates split: if_splits\<close>)

lemma execute_invariant:
  "register n s \<Longrightarrow> execute n tape s = Inr s' \<Longrightarrow> register n s' \<and> norm2 s' = norm2 s"
proof (induction tape arbitrary: s)
  case Nil
  then show ?case by simp
next
  case (Cons g gs)
  then obtain s1 where s1: "apply_operation n g s = Inr s1" and rest: "execute n gs s1 = Inr s'"
    by (auto split: sum.splits)
  from apply_operation_invariant [OF Cons.prems(1) s1] Cons.IH [OF _ rest]
  show ?case by simp
qed

lemma qml_probs_probability_vector:
  assumes "qml_probs n tape = Inr p"
  shows "probability_vector (2 ^ n) p"
proof -
  from assms obtain s where ex: "execute n tape (zero_state n) = Inr s"
    and p: "p = map (\<lambda>z. (cmod z)\<^sup>2) (amplitudes s)"
    by (auto simp: qml_probs_def split: sum.splits)
  from execute_invariant [OF register_zero ex]
  have "register n s" and "norm2 s = 1" by (simp_all add: norm2_zero)
  then show ?thesis
    by (auto simp: probability_vector_def p length_amplitudes sum_list_probs)
qed

lemma execute_valid:
  "\<forall>g \<in> set tape. \<forall>s. \<exists>s'. apply_operation n g s = Inr s' \<Longrightarrow> \<exists>s'. execute n tape s = Inr s'"
proof (induction tape arbitrary: s)
  case Nil
  then show ?case by simp
next
  case (Cons g gs)
  then obtain s1 where s1: "apply_operation n g s = Inr s1" by (meson list.set_intros(1))
  from Cons obtain s' where "execute n gs s1 = Inr s'" by (meson list.set_intros(2))
  with s1 show ?case by simp
qed

lemma qml_probs_returns:
  "\<forall>g \<in> set tape. \<forall>s. \<exists>s'. apply_operation n g s = Inr s' \<Longrightarrow> \<exists>p. qml_probs n tape = Inr p"
  using execute_valid [of tape n "zero_state n"] by (auto simp: qml_probs_def)

text \<open>
  Claim C3. \<^verbatim>\<open>apply_h_and_measure\<close> on 0 or 1 returns a probability vector of length 2;
  \<^verbatim>\<open>controlled_rotations\<close> and \<^verbatim>\<open>my_circuit\<close> return probability vectors of length 8
  for all angles: the entries are non-negative and sum to one.
\<close>

theorem probability_vectors:
  "(\<forall>state \<in> {0, 1}. \<exists>p. apply_h_and_measure state = Inr p \<and> probability_vector 2 p)
   \<and> (\<exists>p. controlled_rotations theta phi omega = Inr p \<and> probability_vector 8 p)
   \<and> (\<exists>p. my_circuit theta phi omega = Inr p \<and> probability_vector 8 p)"
proof (intro conjI ballI)
  fix state :: int
  have "\<exists>p. apply_h_and_measure state = Inr p"
    unfolding apply_h_and_measure_def by (rule qml_probs_returns) (simp add: single_wire_def)
  then obtain p where p: "apply_h_and_measure state = Inr p" ..
  then have "probability_vector (2 ^ 1) p"
    unfolding apply_h_and_measure_def by (rule qml_probs_probability_vector)
  with p show "\<exists>p. apply_h_and_measure state = Inr p \<and> probability_vector 2 p" by simp
next
  have "\<exists>p. controlled_rotations theta phi omega = Inr p"
    unfolding controlled_rotations_def by (rule qml_probs_returns) (simp add: single_wire_def two_wires_def)
  then obtain p where p: "controlled_rotations theta phi omega = Inr p" ..
  then have "probability_vector (2 ^ 3) p"
    unfolding controlled_rotations_def by (rule qml_probs_probability_vector)
  with p show "\<exists>p. controlled_rotations theta phi omega = Inr p \<and> probability_vector 8 p" by simp
next
  have "\<exists>p. my_circuit theta phi omega = Inr p"
    unfolding my_circuit_def by (rule qml_probs_returns) (simp add: single_wire_def two_wires_def)
  then obtain p where p: "my_circuit theta phi omega = Inr p" ..
  then have "probability_vector (2 ^ 3) p"
    unfolding my_circuit_def by (rule qml_probs_probability_vector)
  with p show "\<exists>p. my_circuit theta phi omega = Inr p \<and> probability_vector 8 p" by simp
qed

lemmas sim_defs = qml_state_def qml_probs_def single_wire_def two_wires_def apply_controlled_def
  hadamard_matrix_def paulix_matrix_def eval_nat_numeral

lemma apply_h_and_measure_value: "apply_h_and_measure 1 = Inr [1 / 2, 1 / 2]"
  by (simp add: apply_h_and_measure_def sim_defs inv_sqrt2_def norm_divide power_divide)

text \<open>The input 1: both outcomes have probability one half.\<close>

theorem probability_vectors_witness:
  "(1::int) \<in> {0, 1} \<and> apply_h_and_measure 1 = Inr [1 / 2, 1 / 2]
    \<and> probability_vector 2 [1 / 2, 1 / 2]"
proof -
  have m: "(1::int) \<in> {0, 1}" by simp
  from probability_vectors [of 0 0 0] have
    "\<forall>state \<in> {0, 1}. \<exists>p. apply_h_and_measure state = Inr p \<and> probability_vector 2 p" by blast
  from bspec [OF this m] show ?thesis
    by (simp add: apply_h_and_measure_value)
qed

text \<open>
  Claim C7. From \<open>|00>\<close>, the four preparation circuits return the four Bell vectors,
  with \<open>inv_sqrt2\<close> the amplitude \<open>1 / sqrt 2\<close>.
\<close>

theorem bell_states:
  "prepare_psi_plus = Inr [inv_sqrt2, 0, 0, inv_sqrt2]
   \<and> prepare_psi_minus = Inr [inv_sqrt2, 0, 0, - inv_sqrt2]
   \<and> prepare_phi_plus = Inr [0, inv_sqrt2, inv_sqrt2, 0]
   \<and> prepare_phi_minus = Inr [0, inv_sqrt2, - inv_sqrt2, 0]
   \<and> inv_sqrt2 = 1 / complex_of_real (sqrt 2)"
  by (simp add: prepare_psi_plus_def prepare_psi_minus_def prepare_phi_plus_def
      prepare_phi_minus_def sim_defs) (simp add: inv_sqrt2_def)

subsection \<open>Closed forms of two circuits\<close>

text \<open>
  The distributions of \<^verbatim>\<open>controlled_rotations\<close> and \<^verbatim>\<open>my_circuit\<close> in closed form. The
  notebooks print both vectors at the angles 0.1, 0.2 and 0.3, which ties the wire
  order and the gate matrices of the device model to the recorded outputs.
\<close>

lemma zero_state_3: "zero_state 3 =
  Q (Q (Q (Amp 1) (Amp 0)) (Q (Amp 0) (Amp 0))) (Q (Q (Amp 0) (Amp 0)) (Q (Amp 0) (Amp 0)))"
  by (simp add: eval_nat_numeral)

lemma ctrl_steps:
  "ctrl_above m (Suc 0) k (Q a b) = Q (ctrl_above m 0 k a) (ctrl_above m 0 k b)"
  "ctrl_below m 0 (Suc 0) (Q (Q a0 a1) (Q b0 b1)) =
     (case pair_ctrl m 0 a0 b0 of (x0, y0) \<Rightarrow>
        (case pair_ctrl m 0 a1 b1 of (x1, y1) \<Rightarrow> Q (Q x0 x1) (Q y0 y1)))"
  by (simp_all add: case_prod_beta)

lemmas closed_form_defs = qml_probs_def single_wire_def two_wires_def apply_controlled_def
  hadamard_matrix_def paulix_matrix_def rx_matrix_def ry_matrix_def rz_matrix_def inv_sqrt2_def
  zero_state_3 One_nat_def numeral_2_eq_2 norm_mult norm_divide power_mult_distrib power_divide

lemma abs_pair_square: "\<bar>a\<bar> * \<bar>b\<bar> * (\<bar>a\<bar> * \<bar>b\<bar>) = b * b * (a * a)" for a b :: real
proof -
  have "\<bar>a\<bar> * \<bar>b\<bar> * (\<bar>a\<bar> * \<bar>b\<bar>) = (\<bar>a * b\<bar>)\<^sup>2"
    by (simp add: power2_eq_square abs_mult)
  also have "\<dots> = (a * b)\<^sup>2" by (rule power2_abs)
  finally show ?thesis by (simp add: power2_eq_square)
qed

lemma controlled_rotations_closed_form:
  "controlled_rotations theta phi omega =
     Inr [1 / 2, 0, 0, 0, (cos (theta / 2))\<^sup>2 / 2, 0,
          (sin (theta / 2))\<^sup>2 * (cos (phi / 2))\<^sup>2 / 2,
          (sin (theta / 2))\<^sup>2 * (sin (phi / 2))\<^sup>2 / 2]"
  by (simp add: controlled_rotations_def closed_form_defs abs_pair_square)

lemma my_circuit_closed_form:
  "my_circuit theta phi omega =
     Inr [(cos (theta / 2))\<^sup>2 * (cos (phi / 2))\<^sup>2, 0, 0,
          (sin (theta / 2))\<^sup>2 * (cos (phi / 2))\<^sup>2,
          (sin (theta / 2))\<^sup>2 * (sin (phi / 2))\<^sup>2, 0, 0,
          (cos (theta / 2))\<^sup>2 * (sin (phi / 2))\<^sup>2]"
  by (simp add: my_circuit_def closed_form_defs abs_pair_square)

subsection \<open>The parity circuit\<close>

lemma execute_append:
  "execute n (xs @ ys) s =
     (case execute n xs s of Inl e \<Rightarrow> Inl e | Inr s' \<Rightarrow> execute n ys s')"
  by (induction xs arbitrary: s) (auto split: sum.splits)

lemma four_bit_cases:
  assumes "four_bit x"
  obtains a b c d where "x = [a, b, c, d]" "a = 0 \<or> a = 1" "b = 0 \<or> b = 1" "c = 0 \<or> c = 1" "d = 0 \<or> d = 1"
proof -
  from assms have len: "length x = 4" and bits: "set x \<subseteq> {0, 1}" by (simp_all add: four_bit_def)
  from len obtain a b c d where x: "x = [a, b, c, d]"
    by (auto simp: length_Suc_conv eval_nat_numeral)
  with bits that show thesis by auto
qed

lemma basis_state_prepared:
  assumes "four_bit x"
  shows "\<exists>s. execute 4 (state_preparation x) (zero_state 4) = Inr s \<and> amplitudes s = basis_vector x"
proof -
  from assms obtain a b c d where x: "x = [a, b, c, d]"
    and "a = 0 \<or> a = 1" "b = 0 \<or> b = 1" "c = 0 \<or> c = 1" "d = 0 \<or> d = 1"
    by (rule four_bit_cases)
  then show ?thesis
    by (auto simp: x state_preparation_def basis_flips_def paulix_matrix_def basis_vector_def
        bits_index_def eval_nat_numeral)
qed

lemma upt4: "[0..<4] = [0, 1, 2, 3]"
  by (simp add: eval_nat_numeral upt_rec)

lemma layer_shape: "4 \<le> length lw \<Longrightarrow> layer lw = Inr (layer_ops lw)"
  by (simp add: layer_def layer_ops_def upt4)

lemma layers_shape:
  "\<forall>lw \<in> set weights. 4 \<le> length lw \<Longrightarrow> layers weights = Inr (concat (map layer_ops weights))"
  by (induction weights) (simp_all add: layer_shape)

lemma layer_ops_kinds: "map (\<lambda>g. (op_name g, op_wires g)) (layer_ops lw) = layer_pattern"
  by (simp add: layer_ops_def layer_pattern_def split: prod.splits)

lemma concat_layer_kinds:
  "map (\<lambda>g. (op_name g, op_wires g)) (concat (map layer_ops weights))
     = concat (replicate (length weights) layer_pattern)"
  by (induction weights) (simp_all add: layer_ops_kinds)

lemma length_concat_layers: "length (concat (map layer_ops weights)) = 8 * length weights"
  by (induction weights) (simp_all add: layer_ops_def)

text \<open>
  Claim C2. For weights of \<open>L\<close> layers with four rows each, the queue of \<^verbatim>\<open>circuit\<close> is
  the basis-state encoding of \<open>x\<close> followed by a gate sequence that is the same for
  every \<open>x\<close>: per layer, \<open>Rot\<close> on the wires 0, 1, 2, 3 and then \<open>CNOT\<close> on (0,1), (1,2),
  (2,3), (3,0); \<open>8 * L\<close> gates in all.
\<close>

theorem circuit_fixed_structure:
  assumes "\<forall>lw \<in> set weights. length lw = 4"
  shows "\<exists>gates. (\<forall>x. circuit_tape weights x = Inr (BasisState x [0, 1, 2, 3] # gates))
     \<and> gates = concat (map layer_ops weights)
     \<and> length gates = 8 * length weights
     \<and> map (\<lambda>g. (op_name g, op_wires g)) gates = concat (replicate (length weights) layer_pattern)"
proof -
  from assms have "\<forall>lw \<in> set weights. 4 \<le> length lw" by simp
  then have "layers weights = Inr (concat (map layer_ops weights))" by (rule layers_shape)
  then have "\<forall>x. circuit_tape weights x = Inr (BasisState x [0, 1, 2, 3] # concat (map layer_ops weights))"
    by (simp add: circuit_tape_def state_preparation_def)
  then show ?thesis
    using length_concat_layers [of weights] concat_layer_kinds [of weights] by blast
qed

text \<open>One layer: the queue written out.\<close>

theorem circuit_fixed_structure_witness:
  "list_all (\<lambda>lw. length lw = 4) [[(1, 2, 3), (4, 5, 6), (7, 8, 9), (10, 11, 12 :: real)]]
   \<and> circuit_tape [[(1, 2, 3), (4, 5, 6), (7, 8, 9), (10, 11, 12)]] [0, 1, 1, 0]
      = Inr [BasisState [0, 1, 1, 0] [0, 1, 2, 3],
             Rot 1 2 3 0, Rot 4 5 6 1, Rot 7 8 9 2, Rot 10 11 12 3,
             CNOT 0 1, CNOT 1 2, CNOT 2 3, CNOT 3 0]"
  using circuit_fixed_structure [of "[[(1, 2, 3), (4, 5, 6), (7, 8, 9), (10, 11, 12)]]"]
  by (auto simp: layer_ops_def)

lemma layer_ops_valid: "\<forall>g \<in> set (layer_ops lw). \<forall>s. \<exists>s'. apply_operation 4 g s = Inr s'"
  by (simp add: layer_ops_def two_wires_def split: prod.splits)

lemma layers_valid:
  "\<forall>g \<in> set (concat (map layer_ops weights)). \<forall>s. \<exists>s'. apply_operation 4 g s = Inr s'"
  using layer_ops_valid by auto

lemma pauliz_value_halves:
  "pauliz_value 0 (Q a b) =
     sum_list (map (\<lambda>z. (cmod z)\<^sup>2) (amplitudes a)) - sum_list (map (\<lambda>z. (cmod z)\<^sup>2) (amplitudes b))"
  by (simp add: sum_list_probs)

lemma circuit_stages:
  assumes "four_bit x" and "\<forall>lw \<in> set weights. 4 \<le> length lw"
  shows "\<exists>gates prepared final.
     layers weights = Inr gates
     \<and> execute 4 (state_preparation x) (zero_state 4) = Inr prepared
     \<and> amplitudes prepared = basis_vector x
     \<and> execute 4 gates prepared = Inr final
     \<and> circuit weights x = Inr (pauliz_value 0 final)
     \<and> pauliz_value 0 final =
          sum_list (map (\<lambda>z. (cmod z)\<^sup>2) (take 8 (amplitudes final)))
          - sum_list (map (\<lambda>z. (cmod z)\<^sup>2) (drop 8 (amplitudes final)))"
proof -
  let ?gates = "concat (map layer_ops weights)"
  have ly: "layers weights = Inr ?gates" using assms(2) by (rule layers_shape)
  from basis_state_prepared [OF assms(1)] obtain prepared
    where prep: "execute 4 (state_preparation x) (zero_state 4) = Inr prepared"
      and amps: "amplitudes prepared = basis_vector x" by blast
  from execute_valid [OF layers_valid, of weights prepared] obtain final
    where fin: "execute 4 ?gates prepared = Inr final" by blast
  have tape: "execute 4 (state_preparation x @ ?gates) (zero_state 4) = Inr final"
    by (simp add: execute_append prep fin)
  have circ: "circuit weights x = Inr (pauliz_value 0 final)"
    by (simp add: circuit_def circuit_tape_def ly qml_expval_PauliZ_def tape)
  have reg: "register 4 final"
    using execute_invariant [OF register_zero tape] by simp
  then obtain a b where f: "final = Q a b" and ra: "register 3 a" and rb: "register 3 b"
    by (cases final) (auto simp: eval_nat_numeral)
  have la: "length (amplitudes a) = 8" using length_amplitudes [OF ra] by simp
  have halves: "pauliz_value 0 final =
          sum_list (map (\<lambda>z. (cmod z)\<^sup>2) (take 8 (amplitudes final)))
          - sum_list (map (\<lambda>z. (cmod z)\<^sup>2) (drop 8 (amplitudes final)))"
    by (simp add: f la sum_list_probs)
  show ?thesis
    using ly prep amps fin circ halves by blast
qed

text \<open>
  Claim C1. For all weights, bias and input, the result of \<^verbatim>\<open>variational_classifier\<close> is
  the result of \<^verbatim>\<open>circuit\<close> with the bias added, and nothing else. For a four-bit input
  and layers of at least four rows, \<^verbatim>\<open>circuit\<close> prepares the basis vector of \<open>x\<close>, runs
  the layers on it in order, and returns the expectation of PauliZ on wire 0 of the
  final state: the probability mass of the indices whose first bit is 0 minus that of
  the others.
\<close>

theorem classifier_pipeline:
  "variational_classifier weights bias x =
     (case circuit weights x of Inl e \<Rightarrow> Inl e | Inr v \<Rightarrow> Inr (v + bias))
   \<and> (four_bit x \<and> (\<forall>lw \<in> set weights. 4 \<le> length lw) \<longrightarrow>
        (\<exists>gates prepared final.
           layers weights = Inr gates
           \<and> execute 4 (state_preparation x) (zero_state 4) = Inr prepared
           \<and> amplitudes prepared = basis_vector x
           \<and> execute 4 gates prepared = Inr final
           \<and> circuit weights x = Inr (pauliz_value 0 final)
           \<and> pauliz_value 0 final =
                sum_list (map (\<lambda>z. (cmod z)\<^sup>2) (take 8 (amplitudes final)))
                - sum_list (map (\<lambda>z. (cmod z)\<^sup>2) (drop 8 (amplitudes final)))
           \<and> variational_classifier weights bias x = Inr (pauliz_value 0 final + bias)))"
proof (intro conjI impI)
  show "variational_classifier weights bias x =
     (case circuit weights x of Inl e \<Rightarrow> Inl e | Inr v \<Rightarrow> Inr (v + bias))"
    by (simp add: variational_classifier_def)
next
  assume a: "four_bit x \<and> (\<forall>lw \<in> set weights. 4 \<le> length lw)"
  then have "four_bit x" and "\<forall>lw \<in> set weights. 4 \<le> length lw" by simp_all
  from circuit_stages [OF this] obtain gates prepared final where
    st: "layers weights = Inr gates"
      "execute 4 (state_preparation x) (zero_state 4) = Inr prepared"
      "amplitudes prepared = basis_vector x"
      "execute 4 gates prepared = Inr final"
      "circuit weights x = Inr (pauliz_value 0 final)"
      "pauliz_value 0 final =
          sum_list (map (\<lambda>z. (cmod z)\<^sup>2) (take 8 (amplitudes final)))
          - sum_list (map (\<lambda>z. (cmod z)\<^sup>2) (drop 8 (amplitudes final)))"
    by blast
  from st(5) have "variational_classifier weights bias x = Inr (pauliz_value 0 final + bias)"
    by (simp add: variational_classifier_def)
  with st show "\<exists>gates prepared final.
           layers weights = Inr gates
           \<and> execute 4 (state_preparation x) (zero_state 4) = Inr prepared
           \<and> amplitudes prepared = basis_vector x
           \<and> execute 4 gates prepared = Inr final
           \<and> circuit weights x = Inr (pauliz_value 0 final)
           \<and> pauliz_value 0 final =
                sum_list (map (\<lambda>z. (cmod z)\<^sup>2) (take 8 (amplitudes final)))
                - sum_list (map (\<lambda>z. (cmod z)\<^sup>2) (drop 8 (amplitudes final)))
           \<and> variational_classifier weights bias x = Inr (pauliz_value 0 final + bias)"
    by blast
qed

text \<open>No layers, input 0110: the expectation is 1, the output 1 plus the bias.\<close>

theorem classifier_pipeline_witness:
  "four_bit [0, 1, 1, 0] \<and> list_all (\<lambda>lw. 4 \<le> length lw) ([] :: layer_weights list)
   \<and> variational_classifier [] (1 / 2) [0, 1, 1, 0] = Inr (3 / 2)"
proof -
  have a: "four_bit [0, 1, 1, 0] \<and> (\<forall>lw \<in> set []. 4 \<le> length (lw :: layer_weights))"
    by (simp add: four_bit_def)
  from classifier_pipeline [of "[]" "1 / 2" "[0, 1, 1, 0]"] a obtain gates prepared final where
    "layers [] = Inr gates" "amplitudes prepared = basis_vector [0, 1, 1, 0]"
    "execute 4 gates prepared = Inr final"
    "pauliz_value 0 final =
          sum_list (map (\<lambda>z. (cmod z)\<^sup>2) (take 8 (amplitudes final)))
          - sum_list (map (\<lambda>z. (cmod z)\<^sup>2) (drop 8 (amplitudes final)))"
    "variational_classifier [] (1 / 2) [0, 1, 1, 0] = Inr (pauliz_value 0 final + 1 / 2)"
    by blast
  then show ?thesis using a
    by (auto simp: basis_vector_def bits_index_def eval_nat_numeral)
qed

subsection \<open>Loss and cost\<close>








subsection \<open>The training loop\<close>

lemma train_step_frame:
  assumes "train_step opt_step below it s = Inr s'"
  shows "data_X s' = data_X s \<and> data_Y s' = data_Y s \<and> batch_size s' = batch_size s
       \<and> length (printed s') = Suc (length (printed s))"
  using assms
  by (auto simp: train_step_def split: sum.splits prod.splits)

lemma train_loop_frame:
  "train_loop opt_step below its s = Inr s' \<Longrightarrow>
     data_X s' = data_X s \<and> data_Y s' = data_Y s \<and> batch_size s' = batch_size s
     \<and> length (printed s') = length (printed s) + length its"
proof (induction its arbitrary: s)
  case Nil
  then show ?case by simp
next
  case (Cons it rest)
  then obtain s1 where s1: "train_step opt_step below it s = Inr s1"
    and r: "train_loop opt_step below rest s1 = Inr s'"
    by (auto split: sum.splits)
  from train_step_frame [OF s1] Cons.IH [OF r] show ?case by simp
qed

lemma length_randint_draws: "length (fst (randint_draws below high k g)) = k"
  by (induction k arbitrary: g) (simp_all add: case_prod_beta)

lemma train_step_update:
  assumes "train_step opt_step below it s = Inr s'"
  shows "\<exists>batch_index opt'. length batch_index = batch_size s
       \<and> (\<forall>i \<in> set batch_index. i < length (data_X s) \<and> i < length (data_Y s))
       \<and> opt_step (opt_state s)
            (\<lambda>w b. cost w b (map (\<lambda>i. data_X s ! i) batch_index) (map (\<lambda>i. data_Y s ! i) batch_index))
            (cur_weights s) (cur_bias s) = Inr (cur_weights s', cur_bias s', opt')"
proof -
  from assms obtain batch_index g' where
    ri: "randint below (length (data_X s)) (batch_size s) (rng_state s) = Inr (batch_index, g')"
    by (auto simp: train_step_def split: sum.splits prod.splits)
  then have len: "length batch_index = batch_size s"
    using length_randint_draws [of below "length (data_X s)" "batch_size s" "rng_state s"]
    by (auto simp: randint_def split: if_splits)
  from assms ri obtain X_batch where xb: "take_rows (data_X s) batch_index = Inr X_batch"
    by (auto simp: train_step_def split: sum.splits prod.splits)
  from assms ri xb obtain Y_batch where yb: "take_rows (data_Y s) batch_index = Inr Y_batch"
    by (auto simp: train_step_def split: sum.splits prod.splits)
  from xb have xi: "\<forall>i \<in> set batch_index. i < length (data_X s)"
    and xv: "X_batch = map (\<lambda>i. data_X s ! i) batch_index"
    by (auto simp: take_rows_def split: if_splits)
  from yb have yi: "\<forall>i \<in> set batch_index. i < length (data_Y s)"
    and yv: "Y_batch = map (\<lambda>i. data_Y s ! i) batch_index"
    by (auto simp: take_rows_def split: if_splits)
  from assms ri xb yb obtain opt' where
    "opt_step (opt_state s) (\<lambda>w b. cost w b X_batch Y_batch) (cur_weights s) (cur_bias s)
       = Inr (cur_weights s', cur_bias s', opt')"
    by (auto simp: train_step_def split: sum.splits prod.splits)
  with len xi yi xv yv show ?thesis by blast
qed

lemma shaped_iff: "shaped weights = (\<forall>lw \<in> set weights. 4 \<le> length lw)"
  by (simp add: shaped_def list_all_iff)

lemma circuit_returns:
  assumes "four_bit x" "shaped weights"
  shows "\<exists>v. circuit weights x = Inr v"
proof -
  from assms(2) have "\<forall>lw \<in> set weights. 4 \<le> length lw" by (simp add: shaped_iff)
  from circuit_stages [OF assms(1) this] show ?thesis by blast
qed

lemma classifier_returns:
  "four_bit x \<Longrightarrow> shaped weights \<Longrightarrow> \<exists>v. variational_classifier weights bias x = Inr v"
  using circuit_returns [of x weights] by (auto simp: variational_classifier_def)

lemma comprehension_returns:
  "\<forall>x \<in> set xs. \<exists>y. f x = Inr y \<Longrightarrow>
     \<exists>ys. comprehension f xs = Inr ys \<and> length ys = length xs"
  by (induction xs) auto

lemma square_loss_returns:
  "predictions \<noteq> [] \<Longrightarrow> length labels = length predictions \<Longrightarrow>
     \<exists>c. square_loss labels predictions = Inr c"
  by (auto simp: square_loss_def stack_def broadcast_sub_def mean_def)

lemma cost_returns:
  assumes "shaped weights" "X \<noteq> []" "list_all four_bit X" "length Y = length X"
  shows "\<exists>c. cost weights bias X Y = Inr c"
proof -
  have "\<forall>x \<in> set X. \<exists>y. variational_classifier weights bias x = Inr y"
    using assms(1,3) by (auto simp: list_all_iff classifier_returns)
  from comprehension_returns [OF this] obtain ps
    where ps: "comprehension (variational_classifier weights bias) X = Inr ps"
      and len: "length ps = length X" by blast
  with assms(2,4) have "ps \<noteq> []" "length Y = length ps" by auto
  from square_loss_returns [OF this] ps show ?thesis by (simp add: cost_def)
qed

lemma randint_draws_below:
  "bounded_draws below \<Longrightarrow> 0 < high \<Longrightarrow>
     \<forall>i \<in> set (fst (randint_draws below high k g)). i < high"
proof (induction k arbitrary: g)
  case 0
  then show ?case by simp
next
  case (Suc k)
  obtain i g' where b: "below high g = (i, g')" by (cases "below high g")
  from Suc.prems have "fst (below high g) < high" by (simp add: bounded_draws_def)
  with b have "i < high" by simp
  moreover have "\<forall>j \<in> set (fst (randint_draws below high k g')). j < high"
    using Suc.IH [OF Suc.prems] .
  ultimately show ?case by (simp add: b case_prod_beta)
qed

lemma train_step_returns:
  assumes "trainable s" "bounded_draws below" "sound_optimizer opt_step"
  shows "\<exists>s'. train_step opt_step below it s = Inr s' \<and> trainable s'"
proof -
  let ?n = "length (data_X s)"
  from assms(1) have sh: "shaped (cur_weights s)" and ne: "data_X s \<noteq> []"
    and fb: "list_all four_bit (data_X s)" and leq: "length (data_Y s) = ?n"
    and bs: "0 < batch_size s"
    by (simp_all add: trainable_def)
  from ne have pos: "0 < ?n" by simp
  obtain idx g' where rd: "randint_draws below ?n (batch_size s) (rng_state s) = (idx, g')"
    by (cases "randint_draws below ?n (batch_size s) (rng_state s)")
  have ri: "randint below ?n (batch_size s) (rng_state s) = Inr (idx, g')"
    using pos by (simp add: randint_def rd)
  have lidx: "length idx = batch_size s"
    using length_randint_draws [of below ?n "batch_size s" "rng_state s"] by (simp add: rd)
  have bidx: "\<forall>i \<in> set idx. i < ?n"
    using randint_draws_below [OF assms(2) pos, of "batch_size s" "rng_state s"] by (simp add: rd)
  let ?Xb = "map (\<lambda>i. data_X s ! i) idx"
  let ?Yb = "map (\<lambda>i. data_Y s ! i) idx"
  have xb: "take_rows (data_X s) idx = Inr ?Xb" using bidx by (simp add: take_rows_def)
  have yb: "take_rows (data_Y s) idx = Inr ?Yb" using bidx leq by (simp add: take_rows_def)
  have xbne: "?Xb \<noteq> []" using lidx bs by auto
  have xbfb: "list_all four_bit ?Xb" using fb bidx by (auto simp: list_all_iff)
  have obj: "\<forall>w' b'. shaped w' \<longrightarrow> (\<exists>c. cost w' b' ?Xb ?Yb = Inr c)"
    using cost_returns [OF _ xbne xbfb, of _ ?Yb] by simp
  from assms(3) sh obj obtain w' b' k' where
    st: "opt_step (opt_state s) (\<lambda>w b. cost w b ?Xb ?Yb) (cur_weights s) (cur_bias s) = Inr (w', b', k')"
    and sh': "shaped w'"
    unfolding sound_optimizer_def by meson
  have "\<forall>x \<in> set (data_X s). \<exists>y. signed_classifier w' b' x = Inr y"
  proof
    fix x assume "x \<in> set (data_X s)"
    with fb have "four_bit x" by (simp add: list_all_iff)
    from classifier_returns [OF this sh', of b'] show "\<exists>y. signed_classifier w' b' x = Inr y"
      by (auto simp: signed_classifier_def)
  qed
  from comprehension_returns [OF this] obtain predictions
    where pr: "comprehension (signed_classifier w' b') (data_X s) = Inr predictions" by blast
  from cost_returns [OF sh' ne fb leq, of b'] obtain current_cost
    where cc: "cost w' b' (data_X s) (data_Y s) = Inr current_cost" by blast
  have yne: "length (data_Y s) \<noteq> 0" using leq pos by simp
  then obtain acc where ac: "accuracy (data_Y s) predictions = Inr acc"
    by (simp add: accuracy_def)
  let ?s' = "s\<lparr>cur_weights := w', cur_bias := b', opt_state := k', rng_state := g',
               printed := printed s @ [(it + 1, current_cost, acc)]\<rparr>"
  have "train_step opt_step below it s = Inr ?s'"
    by (simp add: train_step_def ri xb yb st pr cc ac)
  moreover have "trainable ?s'"
    using sh' ne fb leq bs by (simp add: trainable_def)
  ultimately show ?thesis by blast
qed

lemma train_loop_returns:
  "trainable s \<Longrightarrow> bounded_draws below \<Longrightarrow> sound_optimizer opt_step \<Longrightarrow>
     \<exists>s'. train_loop opt_step below its s = Inr s' \<and> trainable s'"
proof (induction its arbitrary: s)
  case Nil
  then show ?case by simp
next
  case (Cons it rest)
  from train_step_returns [OF Cons.prems, of it] obtain s1
    where s1: "train_step opt_step below it s = Inr s1" and t1: "trainable s1" by blast
  from Cons.IH [OF t1 Cons.prems(2,3)] s1 show ?case by simp
qed

lemma training_run_returns:
  "trainable s \<Longrightarrow> bounded_draws below \<Longrightarrow> sound_optimizer opt_step \<Longrightarrow>
     \<exists>s'. training_run opt_step below s = Inr s'"
  using train_loop_returns [of s below opt_step "[0..<60]"] by (auto simp: training_run_def)

lemma bounded_counting_below: "bounded_draws counting_below"
  by (simp add: bounded_draws_def counting_below_def)

lemma sound_bias_descent: "sound_optimizer bias_descent"
  unfolding sound_optimizer_def bias_descent_def
proof (intro allI impI)
  fix k :: nat and objective :: "layer_weights list \<Rightarrow> real \<Rightarrow> py_error + real" and w b
  assume a: "shaped w \<and> (\<forall>w' b'. shaped w' \<longrightarrow> (\<exists>c. objective w' b' = Inr c))"
  then obtain c where "objective w b = Inr c" by blast
  with a show "\<exists>w' b' k'. (case objective w b of Inl e \<Rightarrow> Inl e | Inr c \<Rightarrow> Inr (w, b - c / 2, Suc k))
      = Inr (w', b', k') \<and> shaped w'" by simp
qed

lemma trainable_parity_sample: "trainable parity_sample"
  by (simp add: trainable_def parity_sample_def shaped_def four_bit_def)

text \<open>
  Claim C6. An iteration that completes leaves the training inputs, the labels and the
  batch size as they were; the new weights and bias are those of one optimizer step
  on the cost of a batch of \<open>batch_size\<close> indices into the training set, drawn
  independently (so an index may repeat). The same holds after the 60 iterations of
  the loop, which print 60 lines.
\<close>

theorem training_frame:
  "(train_step opt_step below it s = Inr s' \<longrightarrow>
      data_X s' = data_X s \<and> data_Y s' = data_Y s \<and> batch_size s' = batch_size s
      \<and> (\<exists>batch_index opt'. length batch_index = batch_size s
            \<and> (\<forall>i \<in> set batch_index. i < length (data_X s) \<and> i < length (data_Y s))
            \<and> opt_step (opt_state s)
                 (\<lambda>w b. cost w b (map (\<lambda>i. data_X s ! i) batch_index)
                                 (map (\<lambda>i. data_Y s ! i) batch_index))
                 (cur_weights s) (cur_bias s) = Inr (cur_weights s', cur_bias s', opt')))
   \<and> (training_run opt_step below s = Inr s'' \<longrightarrow>
        data_X s'' = data_X s \<and> data_Y s'' = data_Y s \<and> batch_size s'' = batch_size s
        \<and> length (printed s'') = length (printed s) + 60)"
proof (intro conjI impI)
  assume st: "train_step opt_step below it s = Inr s'"
  from train_step_frame [OF st]
  show "data_X s' = data_X s" "data_Y s' = data_Y s" "batch_size s' = batch_size s"
    by simp_all
  from train_step_update [OF st]
  show "\<exists>batch_index opt'. length batch_index = batch_size s
            \<and> (\<forall>i \<in> set batch_index. i < length (data_X s) \<and> i < length (data_Y s))
            \<and> opt_step (opt_state s)
                 (\<lambda>w b. cost w b (map (\<lambda>i. data_X s ! i) batch_index)
                                 (map (\<lambda>i. data_Y s ! i) batch_index))
                 (cur_weights s) (cur_bias s) = Inr (cur_weights s', cur_bias s', opt')" .
next
  assume "training_run opt_step below s = Inr s''"
  then have "train_loop opt_step below [0..<60] s = Inr s''" by (simp add: training_run_def)
  from train_loop_frame [OF this]
  show "data_X s'' = data_X s" "data_Y s'' = data_Y s" "batch_size s'' = batch_size s"
    "length (printed s'') = length (printed s) + 60"
    by simp_all
qed

text \<open>
  The sample run: batch size 5 over three training points, so indices repeat; all 60
  iterations complete.
\<close>

theorem training_frame_witness:
  "\<exists>s1 s60. train_step bias_descent counting_below 0 parity_sample = Inr s1
     \<and> training_run bias_descent counting_below parity_sample = Inr s60
     \<and> data_X s1 = data_X parity_sample \<and> batch_size s1 = 5
     \<and> data_X s60 = data_X parity_sample \<and> data_Y s60 = data_Y parity_sample
     \<and> batch_size s60 = 5 \<and> length (printed s60) = 60"
proof -
  from train_step_returns [OF trainable_parity_sample bounded_counting_below sound_bias_descent, of 0]
  obtain s1 where s1: "train_step bias_descent counting_below 0 parity_sample = Inr s1" by blast
  from training_run_returns [OF trainable_parity_sample bounded_counting_below sound_bias_descent]
  obtain s60 where s60: "training_run bias_descent counting_below parity_sample = Inr s60" by blast
  from training_frame [of bias_descent counting_below 0 parity_sample s1 s60] s1 s60
  have "data_X s1 = data_X parity_sample \<and> batch_size s1 = batch_size parity_sample
     \<and> data_X s60 = data_X parity_sample \<and> data_Y s60 = data_Y parity_sample
     \<and> batch_size s60 = batch_size parity_sample
     \<and> length (printed s60) = length (printed parity_sample) + 60"
    by simp
  with s1 s60 show ?thesis by (auto simp: parity_sample_def)
qed

end
